theory Spec2Isabelle
  imports Main
begin

section \<open>rclcpp client: release of the client handle and waiting for the service\<close>

text \<open>
  The development embeds \<^verbatim>\<open>src/rclcpp/src/rclcpp/client.cpp\<close>: the deleter installed on
  the shared client handle by the constructor of \<^verbatim>\<open>ClientBase\<close>,
  \<^verbatim>\<open>ClientBase::service_is_ready\<close> and \<^verbatim>\<open>ClientBase::wait_for_service_nanoseconds\<close>.

  Durations and clock readings are signed 64-bit counts of nanoseconds in the program.
  \<open>wait_for_service_nanoseconds\<close> subtracts them as integers, which is what the code
  computes whenever no subtraction leaves the 64-bit range; the claims about the control
  flow are settled on it. \<open>wait_for_service_nanoseconds_int64\<close> wraps the subtractions
  to 64 bits; the claim about the value handed to the wait is settled on it. The two
  agree on every call whose elapsed times and budgets fit in 64 bits
  (\<open>call_int64_agrees\<close>), and \<open>time_to_wait_representable\<close> says when they fit.
\<close>

subsection \<open>Return codes and exceptions\<close>

type_synonym nanoseconds = int

type_synonym rcl_ret = int

definition RCL_RET_OK :: rcl_ret where
  "RCL_RET_OK = 0"

text \<open>
  Modelled from the spec: \<^verbatim>\<open>throw_from_rcl_error\<close> (rclcpp/exceptions.cpp, not among the
  sources) always throws; the exception it builds from the return code is the readiness
  query's error, here \<open>RCLError\<close> carrying that code. \<open>InvalidNodeError\<close> is thrown by
  \<^verbatim>\<open>wait_for_service_nanoseconds\<close> itself.
\<close>

datatype error = InvalidNodeError | RCLError rcl_ret

subsection \<open>The deleter of the client handle\<close>

text \<open>
  What the deleter can change: whether the \<^verbatim>\<open>rcl_client_t\<close> allocated with \<^verbatim>\<open>new\<close> has been
  deleted, whether the error state of rcl is set, and the messages logged.
\<close>

record release_state =
  client_freed :: bool
  rcl_error_set :: bool
  error_log :: "string list"

text \<open>
  \<^verbatim>\<open>rcl_client_fini\<close> belongs to rcl: its return code \<open>fini_ret\<close> is an input, and a
  failing call leaves the error state of rcl set.
\<close>

definition rcl_client_fini :: "rcl_ret \<Rightarrow> release_state \<Rightarrow> rcl_ret \<times> release_state" where
  "rcl_client_fini fini_ret s =
     (fini_ret, if fini_ret = RCL_RET_OK then s else s\<lparr>rcl_error_set := True\<rparr>)"

definition rcl_reset_error :: "release_state \<Rightarrow> release_state" where
  "rcl_reset_error s = s\<lparr>rcl_error_set := False\<rparr>"

text \<open>
  The lambda given to the \<^verbatim>\<open>shared_ptr\<close> of the client handle (client.cpp, lines 45 to 54).
  Nothing in it throws, so the result is always \<open>Inr ()\<close>. The \<^verbatim>\<open>delete client\<close> stands
  inside the \<^verbatim>\<open>if\<close>, after the log and the reset.
\<close>

definition client_handle_deleter ::
  "rcl_ret \<Rightarrow> release_state \<Rightarrow> (error + unit) \<times> release_state" where
  "client_handle_deleter fini_ret s =
     (case rcl_client_fini fini_ret s of (ret, s1) \<Rightarrow>
        if ret \<noteq> RCL_RET_OK then
          (let s2 = s1\<lparr>error_log :=
                        error_log s1 @ [''Error in destruction of rcl client handle'']\<rparr>;
               s3 = rcl_reset_error s2;
               s4 = s3\<lparr>client_freed := True\<rparr>
           in (Inr (), s4))
        else (Inr (), s1))"

subsection \<open>The environment of a call and the calls it observes\<close>

text \<open>
  The collaborators of \<^verbatim>\<open>wait_for_service_nanoseconds\<close> are outside the file: the steady
  clock, the weak pointer to the node graph, rcl's availability query, \<^verbatim>\<open>rclcpp::ok\<close> and
  the graph event. An environment fixes the answer each of them gives at its \<open>k\<close>-th
  invocation, so every behaviour of the collaborators is some environment.
\<close>

record env =
  node_alive :: bool
  clock :: "nat \<Rightarrow> nanoseconds"
  server_available :: "nat \<Rightarrow> rcl_ret \<times> bool"
  ok :: "nat \<Rightarrow> bool"
  graph_changed :: "nat \<Rightarrow> bool"

text \<open>The calls made on the collaborators, with the values exchanged.\<close>

datatype call =
    SteadyClockNow nanoseconds
  | NodeGraphLock bool
  | GetGraphEvent
  | ServerIsAvailable rcl_ret bool
  | RclcppOk bool
  | WaitForGraphChange nanoseconds bool
  | CheckAndClear bool

text \<open>
  The state threaded through a call: how often each collaborator has been asked, the flag
  of the graph event, and the trace of calls in program order.
\<close>

record world =
  clock_reads :: nat
  queries :: nat
  ok_checks :: nat
  waits :: nat
  event_set :: bool
  trace :: "call list"

definition steady_clock_now :: "env \<Rightarrow> world \<Rightarrow> nanoseconds \<times> world" where
  "steady_clock_now e w =
     (let t = clock e (clock_reads w)
      in (t, w\<lparr>clock_reads := Suc (clock_reads w), trace := trace w @ [SteadyClockNow t]\<rparr>))"

definition node_graph_lock :: "env \<Rightarrow> world \<Rightarrow> bool \<times> world" where
  "node_graph_lock e w =
     (node_alive e, w\<lparr>trace := trace w @ [NodeGraphLock (node_alive e)]\<rparr>)"

text \<open>
  Modelled from the spec: \<^verbatim>\<open>get_graph_event\<close>, \<^verbatim>\<open>wait_for_graph_change\<close> and
  \<^verbatim>\<open>Event::check_and_clear\<close> (node graph and event of rclcpp, not among the sources). The
  token obtained is fresh; a wait returns with the token signaled when a change
  notification was observed during it; clearing resets the signaled state and reports
  what it was.
\<close>

definition get_graph_event :: "world \<Rightarrow> world" where
  "get_graph_event w = w\<lparr>event_set := False, trace := trace w @ [GetGraphEvent]\<rparr>"

definition wait_for_graph_change :: "env \<Rightarrow> nanoseconds \<Rightarrow> world \<Rightarrow> world" where
  "wait_for_graph_change e time_to_wait w =
     (let signaled = graph_changed e (waits w)
      in w\<lparr>waits := Suc (waits w),
            event_set := (event_set w \<or> signaled),
            trace := trace w @ [WaitForGraphChange time_to_wait signaled]\<rparr>)"

definition check_and_clear :: "world \<Rightarrow> bool \<times> world" where
  "check_and_clear w =
     (event_set w, w\<lparr>event_set := False, trace := trace w @ [CheckAndClear (event_set w)]\<rparr>)"

definition rclcpp_ok :: "env \<Rightarrow> world \<Rightarrow> bool \<times> world" where
  "rclcpp_ok e w =
     (let b = ok e (ok_checks w)
      in (b, w\<lparr>ok_checks := Suc (ok_checks w), trace := trace w @ [RclcppOk b]\<rparr>))"

subsection \<open>service_is_ready\<close>

definition service_is_ready :: "env \<Rightarrow> world \<Rightarrow> (error + bool) \<times> world" where
  "service_is_ready e w =
     (case server_available e (queries w) of (ret, is_ready) \<Rightarrow>
        let w1 = w\<lparr>queries := Suc (queries w),
                    trace := trace w @ [ServerIsAvailable ret is_ready]\<rparr>
        in if ret \<noteq> RCL_RET_OK then (Inl (RCLError ret), w1)
           else (Inr is_ready, w1))"

subsection \<open>wait_for_service_nanoseconds\<close>

text \<open>
  The \<^verbatim>\<open>do ... while\<close> of lines 117 to 132. With a negative timeout the loop need not end,
  so it runs on fuel, one unit for each pass: the result \<open>None\<close> says that the loop was
  still running when the fuel was used up, and the world returned with it holds the calls
  made so far. \<open>Some (Inr b)\<close> is \<^verbatim>\<open>return b\<close>, \<open>Some (Inl x)\<close> is the exception \<open>x\<close>.
\<close>

fun wait_loop ::
  "nat \<Rightarrow> env \<Rightarrow> nanoseconds \<Rightarrow> nanoseconds \<Rightarrow> nanoseconds \<Rightarrow> world
     \<Rightarrow> (error + bool) option \<times> world" where
  "wait_loop 0 e timeout start time_to_wait w = (None, w)"
| "wait_loop (Suc n) e timeout start time_to_wait w =
     (case rclcpp_ok e w of (running, w1) \<Rightarrow>
        if \<not> running then (Some (Inr False), w1)
        else
          let w2 = wait_for_graph_change e time_to_wait w1;
              w3 = snd (check_and_clear w2)
          in (case service_is_ready e w3 of
                (Inl x, w4) \<Rightarrow> (Some (Inl x), w4)
              | (Inr True, w4) \<Rightarrow> (Some (Inr True), w4)
              | (Inr False, w4) \<Rightarrow>
                  (case steady_clock_now e w4 of (now, w5) \<Rightarrow>
                     let time_to_wait' = timeout - (now - start)
                     in if time_to_wait' > 0 \<or> timeout < 0
                        then wait_loop n e timeout start time_to_wait' w5
                        else (Some (Inr False), w5))))"

definition wait_for_service_nanoseconds ::
  "nat \<Rightarrow> env \<Rightarrow> nanoseconds \<Rightarrow> world \<Rightarrow> (error + bool) option \<times> world" where
  "wait_for_service_nanoseconds n e timeout w =
     (case steady_clock_now e w of (start, w1) \<Rightarrow>
       (case node_graph_lock e w1 of (node_ptr, w2) \<Rightarrow>
          if \<not> node_ptr then (Some (Inl InvalidNodeError), w2)
          else
            let w3 = get_graph_event w2
            in (case service_is_ready e w3 of
                  (Inl x, w4) \<Rightarrow> (Some (Inl x), w4)
                | (Inr True, w4) \<Rightarrow> (Some (Inr True), w4)
                | (Inr False, w4) \<Rightarrow>
                    if timeout = 0 then (Some (Inr False), w4)
                    else
                      (case steady_clock_now e w4 of (now, w5) \<Rightarrow>
                         let time_to_wait = timeout - (now - start);
                             time_to_wait =
                               (if timeout > 0 \<and> time_to_wait < 0 then 0 else time_to_wait)
                         in wait_loop n e timeout start time_to_wait w5))))"

subsection \<open>wait_for_service_nanoseconds with 64-bit durations\<close>

text \<open>
  \<^verbatim>\<open>std::chrono::nanoseconds\<close> and the difference of two readings of the steady clock are
  signed 64-bit counts. \<open>int64\<close> is the value such a count takes when a result leaves
  that range and wraps around. The embedding below is the code of lines 91 to 134 once
  more, with the two subtractions of line 110 and the two of line 131 wrapped to 64 bits
  as the machine computes them; everything else is as above.
\<close>

definition int64 :: "int \<Rightarrow> int" where
  "int64 x = (x + 2 ^ 63) mod 2 ^ 64 - 2 ^ 63"

fun wait_loop_int64 ::
  "nat \<Rightarrow> env \<Rightarrow> nanoseconds \<Rightarrow> nanoseconds \<Rightarrow> nanoseconds \<Rightarrow> world
     \<Rightarrow> (error + bool) option \<times> world" where
  "wait_loop_int64 0 e timeout start time_to_wait w = (None, w)"
| "wait_loop_int64 (Suc n) e timeout start time_to_wait w =
     (case rclcpp_ok e w of (running, w1) \<Rightarrow>
        if \<not> running then (Some (Inr False), w1)
        else
          let w2 = wait_for_graph_change e time_to_wait w1;
              w3 = snd (check_and_clear w2)
          in (case service_is_ready e w3 of
                (Inl x, w4) \<Rightarrow> (Some (Inl x), w4)
              | (Inr True, w4) \<Rightarrow> (Some (Inr True), w4)
              | (Inr False, w4) \<Rightarrow>
                  (case steady_clock_now e w4 of (now, w5) \<Rightarrow>
                     let time_to_wait' = int64 (timeout - int64 (now - start))
                     in if time_to_wait' > 0 \<or> timeout < 0
                        then wait_loop_int64 n e timeout start time_to_wait' w5
                        else (Some (Inr False), w5))))"

definition wait_for_service_nanoseconds_int64 ::
  "nat \<Rightarrow> env \<Rightarrow> nanoseconds \<Rightarrow> world \<Rightarrow> (error + bool) option \<times> world" where
  "wait_for_service_nanoseconds_int64 n e timeout w =
     (case steady_clock_now e w of (start, w1) \<Rightarrow>
       (case node_graph_lock e w1 of (node_ptr, w2) \<Rightarrow>
          if \<not> node_ptr then (Some (Inl InvalidNodeError), w2)
          else
            let w3 = get_graph_event w2
            in (case service_is_ready e w3 of
                  (Inl x, w4) \<Rightarrow> (Some (Inl x), w4)
                | (Inr True, w4) \<Rightarrow> (Some (Inr True), w4)
                | (Inr False, w4) \<Rightarrow>
                    if timeout = 0 then (Some (Inr False), w4)
                    else
                      (case steady_clock_now e w4 of (now, w5) \<Rightarrow>
                         let time_to_wait = int64 (timeout - int64 (now - start));
                             time_to_wait =
                               (if timeout > 0 \<and> time_to_wait < 0 then 0 else time_to_wait)
                         in wait_loop_int64 n e timeout start time_to_wait w5))))"

subsection \<open>Worlds reached inside a call\<close>

text \<open>
  Names for the worlds the code passes through: after the immediate readiness check
  (line 101), on entry to the loop (line 110), after the readiness check of a pass
  (line 127) and after the clock reading that ends a pass (line 131).
\<close>

abbreviation after_first_check :: "env \<Rightarrow> world \<Rightarrow> world" where
  "after_first_check e w \<equiv>
     snd (service_is_ready e
            (get_graph_event (snd (node_graph_lock e (snd (steady_clock_now e w))))))"

abbreviation at_loop_entry :: "env \<Rightarrow> world \<Rightarrow> world" where
  "at_loop_entry e w \<equiv> snd (steady_clock_now e (after_first_check e w))"

abbreviation after_check :: "env \<Rightarrow> nanoseconds \<Rightarrow> world \<Rightarrow> world" where
  "after_check e time_to_wait w \<equiv>
     snd (service_is_ready e
            (snd (check_and_clear (wait_for_graph_change e time_to_wait (snd (rclcpp_ok e w))))))"

abbreviation after_pass :: "env \<Rightarrow> nanoseconds \<Rightarrow> world \<Rightarrow> world" where
  "after_pass e time_to_wait w \<equiv> snd (steady_clock_now e (after_check e time_to_wait w))"

subsection \<open>Notions used to state the properties\<close>

text \<open>
  \<^verbatim>\<open>std::chrono::steady_clock\<close> never runs backwards.
\<close>

definition monotonic_clock :: "env \<Rightarrow> bool" where
  "monotonic_clock e \<longleftrightarrow> (\<forall>i. clock e i \<le> clock e (Suc i))"

text \<open>The values a signed 64-bit count of nanoseconds can hold.\<close>

definition representable :: "int \<Rightarrow> bool" where
  "representable d \<longleftrightarrow> - (2 ^ 63) \<le> d \<and> d < 2 ^ 63"

text \<open>
  Modelled from the spec: how \<^verbatim>\<open>wait_for_graph_change\<close> (not among the sources) reads the
  duration it is given. Zero is a poll of the pending notification state, a positive
  duration bounds the wait, and a negative one leaves it unbounded.
\<close>

datatype wait_kind = NonBlocking | Bounded nanoseconds | Unbounded

definition wait_kind_of :: "nanoseconds \<Rightarrow> wait_kind" where
  "wait_kind_of d = (if d = 0 then NonBlocking else if 0 < d then Bounded d else Unbounded)"

text \<open>
  A trace in which every wait on the graph event is followed at once by the clearing of
  the event and then by a readiness query.
\<close>

fun rechecked_after_each_wait :: "call list \<Rightarrow> bool" where
  "rechecked_after_each_wait [] = True"
| "rechecked_after_each_wait (c # cs) =
     (case c of
        WaitForGraphChange d s \<Rightarrow>
          (case cs of
             CheckAndClear b # ServerIsAvailable r a # cs' \<Rightarrow> rechecked_after_each_wait cs'
           | _ \<Rightarrow> False)
      | _ \<Rightarrow> rechecked_after_each_wait cs)"

text \<open>The durations given to the waits of a trace, in program order.\<close>

fun wait_durations :: "call list \<Rightarrow> nanoseconds list" where
  "wait_durations [] = []"
| "wait_durations (c # cs) =
     (case c of WaitForGraphChange d s \<Rightarrow> d # wait_durations cs | _ \<Rightarrow> wait_durations cs)"

subsection \<open>Sample inputs\<close>

text \<open>
  A handle that has been allocated and not yet released; a world in which nothing has
  been called yet; and environments whose clock advances by ten nanoseconds from one
  reading to the next and whose graph event is signaled during every other wait.
\<close>

definition live_handle :: release_state where
  "live_handle = \<lparr>client_freed = False, rcl_error_set = False, error_log = []\<rparr>"

definition fresh_world :: world where
  "fresh_world =
     \<lparr>clock_reads = 0, queries = 0, ok_checks = 0, waits = 0, event_set = False, trace = []\<rparr>"

definition scenario :: "bool \<Rightarrow> (nat \<Rightarrow> rcl_ret \<times> bool) \<Rightarrow> (nat \<Rightarrow> bool) \<Rightarrow> env" where
  "scenario alive available running =
     \<lparr>node_alive = alive, clock = (\<lambda>k. 10 * int k), server_available = available,
      ok = running, graph_changed = (\<lambda>k. even k)\<rparr>"

text \<open>A readiness query that fails with code 1 at its second invocation.\<close>

definition failing_second_query :: "nat \<Rightarrow> rcl_ret \<times> bool" where
  "failing_second_query k = (if k = 1 then (1, False) else (RCL_RET_OK, False))"

text \<open>A service that is found ready from the third readiness query on.\<close>

definition ready_from_third_query :: "nat \<Rightarrow> rcl_ret \<times> bool" where
  "ready_from_third_query k = (RCL_RET_OK, 2 \<le> k)"

text \<open>A shutdown signal that is raised between the second and the third check.\<close>

definition shutdown_at_third_check :: "nat \<Rightarrow> bool" where
  "shutdown_at_third_check k = (k < 2)"

text \<open>Constant answers of the readiness query, of \<^verbatim>\<open>rclcpp::ok\<close> and of the graph event.\<close>

definition always_ready :: "nat \<Rightarrow> rcl_ret \<times> bool" where
  "always_ready k = (RCL_RET_OK, True)"

definition never_ready :: "nat \<Rightarrow> rcl_ret \<times> bool" where
  "never_ready k = (RCL_RET_OK, False)"

definition no_shutdown :: "nat \<Rightarrow> bool" where
  "no_shutdown k = True"

definition shutdown_active :: "nat \<Rightarrow> bool" where
  "shutdown_active k = False"

definition no_notification :: "nat \<Rightarrow> bool" where
  "no_notification k = False"

section \<open>Properties\<close>

subsection \<open>The sample inputs unfolded\<close>

lemmas sample_defs =
  scenario_def always_ready_def never_ready_def no_shutdown_def shutdown_active_def
  no_notification_def

subsection \<open>The primitives, field by field\<close>

lemmas primitive_defs =
  steady_clock_now_def node_graph_lock_def get_graph_event_def wait_for_graph_change_def
  check_and_clear_def rclcpp_ok_def service_is_ready_def Let_def

lemma after_ok_fields:
  "clock_reads (snd (rclcpp_ok e w)) = clock_reads w"
  "queries (snd (rclcpp_ok e w)) = queries w"
  "ok_checks (snd (rclcpp_ok e w)) = Suc (ok_checks w)"
  "waits (snd (rclcpp_ok e w)) = waits w"
  "event_set (snd (rclcpp_ok e w)) = event_set w"
  "trace (snd (rclcpp_ok e w)) = trace w @ [RclcppOk (ok e (ok_checks w))]"
  by (simp_all add: rclcpp_ok_def Let_def)

lemma after_check_fields:
  "clock_reads (after_check e d w) = clock_reads w"
  "queries (after_check e d w) = Suc (queries w)"
  "ok_checks (after_check e d w) = Suc (ok_checks w)"
  "waits (after_check e d w) = Suc (waits w)"
  "event_set (after_check e d w) = False"
  "trace (after_check e d w) =
     trace w @ [RclcppOk (ok e (ok_checks w)),
                WaitForGraphChange d (graph_changed e (waits w)),
                CheckAndClear (event_set w \<or> graph_changed e (waits w)),
                ServerIsAvailable (fst (server_available e (queries w)))
                                  (snd (server_available e (queries w)))]"
  by (simp_all add: primitive_defs split: prod.splits)

lemma after_pass_fields:
  "clock_reads (after_pass e d w) = Suc (clock_reads w)"
  "queries (after_pass e d w) = Suc (queries w)"
  "ok_checks (after_pass e d w) = Suc (ok_checks w)"
  "waits (after_pass e d w) = Suc (waits w)"
  "event_set (after_pass e d w) = False"
  "trace (after_pass e d w) =
     trace (after_check e d w) @ [SteadyClockNow (clock e (clock_reads w))]"
  by (simp_all add: primitive_defs split: prod.splits)

lemma after_first_check_fields:
  "clock_reads (after_first_check e w) = Suc (clock_reads w)"
  "queries (after_first_check e w) = Suc (queries w)"
  "ok_checks (after_first_check e w) = ok_checks w"
  "waits (after_first_check e w) = waits w"
  "event_set (after_first_check e w) = False"
  "trace (after_first_check e w) =
     trace w @ [SteadyClockNow (clock e (clock_reads w)), NodeGraphLock (node_alive e),
                GetGraphEvent,
                ServerIsAvailable (fst (server_available e (queries w)))
                                  (snd (server_available e (queries w)))]"
  by (simp_all add: primitive_defs split: prod.splits)

lemma at_loop_entry_fields:
  "clock_reads (at_loop_entry e w) = Suc (Suc (clock_reads w))"
  "queries (at_loop_entry e w) = Suc (queries w)"
  "ok_checks (at_loop_entry e w) = ok_checks w"
  "waits (at_loop_entry e w) = waits w"
  "event_set (at_loop_entry e w) = False"
  "trace (at_loop_entry e w) =
     trace (after_first_check e w) @ [SteadyClockNow (clock e (Suc (clock_reads w)))]"
  by (simp_all add: primitive_defs split: prod.splits)

subsection \<open>One pass of the loop, case by case\<close>

lemma loop_shutdown:
  "\<not> ok e (ok_checks w) \<Longrightarrow>
   wait_loop (Suc n) e timeout start d w = (Some (Inr False), snd (rclcpp_ok e w))"
  by (simp add: rclcpp_ok_def Let_def)

lemma loop_query_fails:
  "ok e (ok_checks w) \<Longrightarrow> server_available e (queries w) = (ret, b) \<Longrightarrow> ret \<noteq> RCL_RET_OK \<Longrightarrow>
   wait_loop (Suc n) e timeout start d w = (Some (Inl (RCLError ret)), after_check e d w)"
  by (simp add: primitive_defs)

lemma loop_ready:
  "ok e (ok_checks w) \<Longrightarrow> server_available e (queries w) = (RCL_RET_OK, True) \<Longrightarrow>
   wait_loop (Suc n) e timeout start d w = (Some (Inr True), after_check e d w)"
  by (simp add: primitive_defs)

lemma loop_continues:
  "ok e (ok_checks w) \<Longrightarrow> server_available e (queries w) = (RCL_RET_OK, False) \<Longrightarrow>
   0 < timeout - (clock e (clock_reads w) - start) \<or> timeout < 0 \<Longrightarrow>
   wait_loop (Suc n) e timeout start d w =
     wait_loop n e timeout start (timeout - (clock e (clock_reads w) - start)) (after_pass e d w)"
  by (simp add: primitive_defs)

lemma loop_exhausted:
  "ok e (ok_checks w) \<Longrightarrow> server_available e (queries w) = (RCL_RET_OK, False) \<Longrightarrow>
   \<not> (0 < timeout - (clock e (clock_reads w) - start) \<or> timeout < 0) \<Longrightarrow>
   wait_loop (Suc n) e timeout start d w = (Some (Inr False), after_pass e d w)"
  by (simp add: primitive_defs)

declare wait_loop.simps(2) [simp del]

lemma pass_cases [case_names shutdown query_fails ready continues exhausted]:
  obtains
    "\<not> ok e (ok_checks w)"
  | ret b where "ok e (ok_checks w)" "server_available e (queries w) = (ret, b)"
      "ret \<noteq> RCL_RET_OK"
  | "ok e (ok_checks w)" "server_available e (queries w) = (RCL_RET_OK, True)"
  | "ok e (ok_checks w)" "server_available e (queries w) = (RCL_RET_OK, False)"
      "0 < timeout - (clock e (clock_reads w) - start) \<or> timeout < 0"
  | "ok e (ok_checks w)" "server_available e (queries w) = (RCL_RET_OK, False)"
      "\<not> (0 < timeout - (clock e (clock_reads w) - start) \<or> timeout < 0)"
  by (cases "server_available e (queries w)") auto

subsection \<open>The call before the loop, case by case\<close>

lemma call_stale:
  "\<not> node_alive e \<Longrightarrow>
   wait_for_service_nanoseconds n e timeout w =
     (Some (Inl InvalidNodeError), snd (node_graph_lock e (snd (steady_clock_now e w))))"
  by (simp add: wait_for_service_nanoseconds_def primitive_defs)

lemma call_query_fails:
  "node_alive e \<Longrightarrow> server_available e (queries w) = (ret, b) \<Longrightarrow> ret \<noteq> RCL_RET_OK \<Longrightarrow>
   wait_for_service_nanoseconds n e timeout w =
     (Some (Inl (RCLError ret)), after_first_check e w)"
  by (simp add: wait_for_service_nanoseconds_def primitive_defs)

lemma call_ready:
  "node_alive e \<Longrightarrow> server_available e (queries w) = (RCL_RET_OK, True) \<Longrightarrow>
   wait_for_service_nanoseconds n e timeout w = (Some (Inr True), after_first_check e w)"
  by (simp add: wait_for_service_nanoseconds_def primitive_defs)

lemma call_probe:
  "node_alive e \<Longrightarrow> server_available e (queries w) = (RCL_RET_OK, False) \<Longrightarrow>
   wait_for_service_nanoseconds n e 0 w = (Some (Inr False), after_first_check e w)"
  by (simp add: wait_for_service_nanoseconds_def primitive_defs)

lemma call_enters_loop:
  "node_alive e \<Longrightarrow> server_available e (queries w) = (RCL_RET_OK, False) \<Longrightarrow> timeout \<noteq> 0 \<Longrightarrow>
   wait_for_service_nanoseconds n e timeout w =
     wait_loop n e timeout (clock e (clock_reads w))
       (if 0 < timeout \<and> timeout - (clock e (Suc (clock_reads w)) - clock e (clock_reads w)) < 0
        then 0
        else timeout - (clock e (Suc (clock_reads w)) - clock e (clock_reads w)))
       (at_loop_entry e w)"
  by (simp add: wait_for_service_nanoseconds_def primitive_defs)

lemma call_cases [case_names stale query_fails ready probe enters_loop]:
  obtains
    "\<not> node_alive e"
  | ret b where "node_alive e" "server_available e (queries w) = (ret, b)" "ret \<noteq> RCL_RET_OK"
  | "node_alive e" "server_available e (queries w) = (RCL_RET_OK, True)"
  | "node_alive e" "server_available e (queries w) = (RCL_RET_OK, False)" "timeout = 0"
  | "node_alive e" "server_available e (queries w) = (RCL_RET_OK, False)" "timeout \<noteq> 0"
  by (cases "server_available e (queries w)") auto

subsection \<open>Release of the client handle\<close>

lemma deleter_never_throws: "fst (client_handle_deleter fini_ret s) = Inr ()"
  by (simp add: client_handle_deleter_def rcl_client_fini_def Let_def)

lemma deleter_on_failure:
  "fini_ret \<noteq> RCL_RET_OK \<Longrightarrow>
   snd (client_handle_deleter fini_ret s) =
     s\<lparr>client_freed := True, rcl_error_set := False,
       error_log := error_log s @ [''Error in destruction of rcl client handle'']\<rparr>"
  by (simp add: client_handle_deleter_def rcl_client_fini_def rcl_reset_error_def Let_def)

text \<open>
  Claim C3. Releasing the handle never throws, a failing finalize is logged with the error
  state cleared, and the memory is freed whether finalize succeeds or fails. The first two
  parts hold (\<open>deleter_never_throws\<close>, \<open>deleter_on_failure\<close>). The last fails in the
  code: when \<^verbatim>\<open>rcl_client_fini\<close> returns \<^verbatim>\<open>RCL_RET_OK\<close> the deleter leaves the state as it
  found it, so the \<^verbatim>\<open>rcl_client_t\<close> is never deleted.
\<close>

theorem deleter_leaks_on_success:
  "client_handle_deleter RCL_RET_OK live_handle = (Inr (), live_handle)
   \<and> client_freed (snd (client_handle_deleter RCL_RET_OK live_handle)) = False"
  by (simp add: client_handle_deleter_def rcl_client_fini_def live_handle_def)

subsection \<open>Returns before the loop\<close>

text \<open>
  Claim C2. When the parent context is alive and the first readiness query succeeds with
  "ready", the call returns \<^verbatim>\<open>true\<close> for every timeout, and the calls it has made are the
  clock reading, the lock, the request for the graph event and that one query: the wait
  primitive is never invoked.
\<close>

theorem ready_at_call_never_waits:
  assumes "node_alive e" and "server_available e (queries w) = (RCL_RET_OK, True)"
  shows "wait_for_service_nanoseconds n e timeout w =
           (Some (Inr True),
            w\<lparr>clock_reads := Suc (clock_reads w), queries := Suc (queries w),
              event_set := False,
              trace := trace w @ [SteadyClockNow (clock e (clock_reads w)), NodeGraphLock True,
                                  GetGraphEvent, ServerIsAvailable RCL_RET_OK True]\<rparr>)"
  using assms by (simp add: call_ready) (simp add: primitive_defs)

theorem ready_at_call_never_waits_witness:
  "wait_for_service_nanoseconds 0 (scenario True always_ready no_shutdown) (- 1)
     fresh_world =
   (Some (Inr True),
    \<lparr>clock_reads = 1, queries = 1, ok_checks = 0, waits = 0, event_set = False,
     trace = [SteadyClockNow 0, NodeGraphLock True, GetGraphEvent,
              ServerIsAvailable RCL_RET_OK True]\<rparr>)"
  using ready_at_call_never_waits
    [of "scenario True always_ready no_shutdown" fresh_world 0 "- 1"]
  by (simp add: sample_defs fresh_world_def)

text \<open>
  Claim C5. With a timeout of zero, a live parent context and a first readiness query that
  succeeds with "not ready", the call returns \<^verbatim>\<open>false\<close> right after that single query and
  never invokes the wait primitive.
\<close>

theorem zero_timeout_probe_returns_false:
  assumes "node_alive e" and "server_available e (queries w) = (RCL_RET_OK, False)"
  shows "wait_for_service_nanoseconds n e 0 w =
           (Some (Inr False),
            w\<lparr>clock_reads := Suc (clock_reads w), queries := Suc (queries w),
              event_set := False,
              trace := trace w @ [SteadyClockNow (clock e (clock_reads w)), NodeGraphLock True,
                                  GetGraphEvent, ServerIsAvailable RCL_RET_OK False]\<rparr>)"
  using assms by (simp add: call_probe) (simp add: primitive_defs)

theorem zero_timeout_probe_returns_false_witness:
  "wait_for_service_nanoseconds 0 (scenario True never_ready no_shutdown) 0
     fresh_world =
   (Some (Inr False),
    \<lparr>clock_reads = 1, queries = 1, ok_checks = 0, waits = 0, event_set = False,
     trace = [SteadyClockNow 0, NodeGraphLock True, GetGraphEvent,
              ServerIsAvailable RCL_RET_OK False]\<rparr>)"
  using zero_timeout_probe_returns_false
    [of "scenario True never_ready no_shutdown" fresh_world 0]
  by (simp add: sample_defs fresh_world_def)

text \<open>
  Claim C8. When the weak reference to the node graph cannot be resolved, the call throws
  \<^verbatim>\<open>InvalidNodeError\<close> for every timeout, having made no readiness query and no wait: the
  only calls before it are the clock reading of line 93 and the lock itself.
\<close>

theorem stale_context_fails_first:
  assumes "\<not> node_alive e"
  shows "wait_for_service_nanoseconds n e timeout w =
           (Some (Inl InvalidNodeError),
            w\<lparr>clock_reads := Suc (clock_reads w),
              trace := trace w @ [SteadyClockNow (clock e (clock_reads w)),
                                  NodeGraphLock False]\<rparr>)"
  using assms by (simp add: call_stale) (simp add: primitive_defs)

theorem stale_context_fails_first_witness:
  "wait_for_service_nanoseconds 7 (scenario False always_ready no_shutdown) 50
     fresh_world =
   (Some (Inl InvalidNodeError),
    \<lparr>clock_reads = 1, queries = 0, ok_checks = 0, waits = 0, event_set = False,
     trace = [SteadyClockNow 0, NodeGraphLock False]\<rparr>)"
  using stale_context_fails_first
    [of "scenario False always_ready no_shutdown" 7 50 fresh_world]
  by (simp add: sample_defs fresh_world_def)

text \<open>
  Claim C10. With the shutdown signal active at every check (\<open>ok\<close> answers \<open>False\<close>
  throughout), a live parent context and an endpoint that is ready at call time, the call
  still returns \<^verbatim>\<open>true\<close>; \<^verbatim>\<open>rclcpp::ok\<close> is consulted neither before the immediate
  readiness check nor before the early return for a zero timeout.
\<close>

theorem shutdown_does_not_suppress_fast_path:
  assumes "node_alive e" and "server_available e (queries w) = (RCL_RET_OK, ready)"
    and "ready \<or> timeout = 0"
  shows "fst (wait_for_service_nanoseconds n (e\<lparr>ok := shutdown_active\<rparr>) timeout w) = Some (Inr ready)
       \<and> ok_checks (snd (wait_for_service_nanoseconds n (e\<lparr>ok := shutdown_active\<rparr>) timeout w)) =
           ok_checks w"
proof (cases ready)
  case True
  with assms show ?thesis by (simp add: call_ready after_first_check_fields)
next
  case False
  with assms show ?thesis by (simp add: call_probe after_first_check_fields)
qed

theorem shutdown_does_not_suppress_fast_path_witness:
  "fst (wait_for_service_nanoseconds 3
          ((scenario True always_ready no_shutdown)\<lparr>ok := shutdown_active\<rparr>) 50 fresh_world) =
     Some (Inr True)
   \<and> ok_checks (snd (wait_for_service_nanoseconds 3
          ((scenario True always_ready no_shutdown)\<lparr>ok := shutdown_active\<rparr>) 50 fresh_world)) = 0"
  using shutdown_does_not_suppress_fast_path
    [of "scenario True always_ready no_shutdown" fresh_world True 50 3]
  by (simp add: sample_defs fresh_world_def)

subsection \<open>Errors of the readiness query\<close>

lemma wait_loop_query_error:
  assumes "wait_loop n e timeout start d w = (r, w')"
    and "queries w \<le> k" and "k < queries w'"
    and "server_available e k = (ret, b)" and "ret \<noteq> RCL_RET_OK"
  shows "r = Some (Inl (RCLError ret)) \<and> queries w' = Suc k
       \<and> trace w' \<noteq> [] \<and> last (trace w') = ServerIsAvailable ret b"
  using assms
proof (induction n arbitrary: d w)
  case 0
  then show ?case by simp
next
  case (Suc n)
  show ?case
  proof (cases rule: pass_cases [where e = e and w = w and timeout = timeout and start = start])
    case shutdown
    with Suc.prems show ?thesis by (auto simp add: loop_shutdown after_ok_fields)
  next
    case (query_fails ret0 b0)
    with Suc.prems(1) have res: "r = Some (Inl (RCLError ret0))" "w' = after_check e d w"
      by (auto simp add: loop_query_fails)
    with Suc.prems(2,3) have "k = queries w" by (simp add: after_check_fields)
    with res query_fails Suc.prems(4) show ?thesis by (simp add: after_check_fields)
  next
    case ready
    with Suc.prems(1) have res: "w' = after_check e d w"
      by (auto simp add: loop_ready)
    with Suc.prems(2,3) have "k = queries w" by (simp add: after_check_fields)
    with ready Suc.prems(4,5) show ?thesis by simp
  next
    case exhausted
    with Suc.prems(1) have res: "w' = after_pass e d w"
      by (auto simp add: loop_exhausted)
    with Suc.prems(2,3) have "k = queries w" by (simp add: after_pass_fields)
    with exhausted Suc.prems(4,5) show ?thesis by simp
  next
    case continues
    from Suc.prems(1) continues
    have run: "wait_loop n e timeout start (timeout - (clock e (clock_reads w) - start))
                 (after_pass e d w) = (r, w')"
      by (simp add: loop_continues)
    have "k \<noteq> queries w" using continues Suc.prems(4,5) by auto
    with Suc.prems(2) have "queries (after_pass e d w) \<le> k"
      by (simp add: after_pass_fields)
    from Suc.IH [OF run this Suc.prems(3,4,5)] show ?thesis .
  qed
qed

text \<open>
  Claim C7. If a readiness query made during the call fails (the immediate check or the
  check of any pass: the \<open>k\<close>-th query overall, with a return code other than
  \<^verbatim>\<open>RCL_RET_OK\<close>), the call ends there with the exception built from that code: it has
  returned whatever fuel is left, that query is the last one made, and it is the last call
  of the trace, so no wait and no readiness check follows it.
\<close>

theorem query_error_propagates_at_once:
  assumes "wait_for_service_nanoseconds n e timeout w = (r, w')"
    and "queries w \<le> k" and "k < queries w'"
    and "server_available e k = (ret, b)" and "ret \<noteq> RCL_RET_OK"
  shows "r = Some (Inl (RCLError ret)) \<and> queries w' = Suc k
       \<and> trace w' \<noteq> [] \<and> last (trace w') = ServerIsAvailable ret b"
proof (cases rule: call_cases [where e = e and w = w and timeout = timeout])
  case stale
  with assms(1) have "w' = snd (node_graph_lock e (snd (steady_clock_now e w)))"
    by (auto simp add: call_stale)
  then have "queries w' = queries w" by (simp add: primitive_defs)
  with assms(2,3) show ?thesis by simp
next
  case (query_fails ret0 b0)
  with assms(1) have res: "r = Some (Inl (RCLError ret0))" "w' = after_first_check e w"
    by (auto simp add: call_query_fails)
  with assms(2,3) have "k = queries w" by (simp add: after_first_check_fields)
  with res query_fails assms(4) show ?thesis by (simp add: after_first_check_fields)
next
  case ready
  with assms(1) have res: "w' = after_first_check e w"
    by (auto simp add: call_ready)
  with assms(2,3) have "k = queries w" by (simp add: after_first_check_fields)
  with ready assms(4,5) show ?thesis by simp
next
  case probe
  with assms(1) have res: "w' = after_first_check e w"
    by (auto simp add: call_probe)
  with assms(2,3) have "k = queries w" by (simp add: after_first_check_fields)
  with probe assms(4,5) show ?thesis by simp
next
  case enters_loop
  let ?d = "if 0 < timeout \<and> timeout - (clock e (Suc (clock_reads w)) - clock e (clock_reads w)) < 0
        then 0
        else timeout - (clock e (Suc (clock_reads w)) - clock e (clock_reads w))"
  from assms(1)
  have run: "wait_loop n e timeout (clock e (clock_reads w)) ?d (at_loop_entry e w) = (r, w')"
    unfolding call_enters_loop [OF enters_loop] .
  have "k \<noteq> queries w" using enters_loop assms(4,5) by auto
  with assms(2) have "queries (at_loop_entry e w) \<le> k"
    by (simp add: at_loop_entry_fields)
  from wait_loop_query_error [OF run this assms(3,4,5)] show ?thesis .
qed

theorem query_error_propagates_at_once_witness:
  "wait_for_service_nanoseconds 4 (scenario True failing_second_query no_shutdown) 50 fresh_world =
     (Some (Inl (RCLError 1)),
      \<lparr>clock_reads = 2, queries = 2, ok_checks = 1, waits = 1, event_set = False,
        trace = [SteadyClockNow 0, NodeGraphLock True, GetGraphEvent,
           ServerIsAvailable 0 False, SteadyClockNow 10, RclcppOk True,
           WaitForGraphChange 40 True, CheckAndClear True, ServerIsAvailable 1 False]\<rparr>)"
proof -
  let ?e = "scenario True failing_second_query no_shutdown"
  obtain r w' where run: "wait_for_service_nanoseconds 4 ?e 50 fresh_world = (r, w')"
    by (cases "wait_for_service_nanoseconds 4 ?e 50 fresh_world")
  have w': "w' = snd (wait_for_service_nanoseconds 4 ?e 50 fresh_world)"
    using run by simp
  have tr: "w' = \<lparr>clock_reads = 2, queries = 2, ok_checks = 1, waits = 1, event_set = False,
        trace = [SteadyClockNow 0, NodeGraphLock True, GetGraphEvent,
           ServerIsAvailable 0 False, SteadyClockNow 10, RclcppOk True,
           WaitForGraphChange 40 True, CheckAndClear True, ServerIsAvailable 1 False]\<rparr>"
    unfolding w' by code_simp
  have "r = Some (Inl (RCLError 1))"
    using query_error_propagates_at_once [OF run, of 1 1 False]
    by (simp add: tr fresh_world_def sample_defs failing_second_query_def RCL_RET_OK_def)
  with run tr show ?thesis by simp
qed

subsection \<open>Waits, notifications and readiness checks\<close>

lemma rechecked_append:
  "rechecked_after_each_wait xs \<Longrightarrow> rechecked_after_each_wait ys \<Longrightarrow>
   rechecked_after_each_wait (xs @ ys)"
  by (induction xs rule: rechecked_after_each_wait.induct)
     (auto split: call.splits list.splits)

lemma wait_loop_trace:
  assumes "wait_loop n e timeout start d w = (r, w')"
  shows "\<exists>tr. trace w' = trace w @ tr \<and> rechecked_after_each_wait tr
           \<and> (r = Some (Inr True) \<longrightarrow> tr \<noteq> [] \<and> last tr = ServerIsAvailable RCL_RET_OK True)"
  using assms
proof (induction n arbitrary: d w)
  case 0
  then show ?case by simp
next
  case (Suc n)
  show ?case
  proof (cases rule: pass_cases [where e = e and w = w and timeout = timeout and start = start])
    case shutdown
    with Suc.prems show ?thesis by (auto simp add: loop_shutdown after_ok_fields)
  next
    case (query_fails ret0 b0)
    with Suc.prems show ?thesis by (auto simp add: loop_query_fails after_check_fields)
  next
    case ready
    with Suc.prems show ?thesis by (auto simp add: loop_ready after_check_fields)
  next
    case exhausted
    with Suc.prems show ?thesis
      by (auto simp add: loop_exhausted after_pass_fields after_check_fields)
  next
    case continues
    from Suc.prems continues
    have run: "wait_loop n e timeout start (timeout - (clock e (clock_reads w) - start))
                 (after_pass e d w) = (r, w')"
      by (simp add: loop_continues)
    from Suc.IH [OF run] obtain tr where
      tr: "trace w' = trace (after_pass e d w) @ tr" "rechecked_after_each_wait tr"
        "r = Some (Inr True) \<longrightarrow> tr \<noteq> [] \<and> last tr = ServerIsAvailable RCL_RET_OK True"
      by blast
    let ?pass = "[RclcppOk True, WaitForGraphChange d (graph_changed e (waits w)),
                  CheckAndClear (event_set w \<or> graph_changed e (waits w)),
                  ServerIsAvailable RCL_RET_OK False,
                  SteadyClockNow (clock e (clock_reads w))]"
    have "trace w' = trace w @ (?pass @ tr)"
      using tr(1) continues by (simp add: after_pass_fields after_check_fields)
    moreover have "rechecked_after_each_wait (?pass @ tr)"
      using tr(2) by (intro rechecked_append) simp_all
    moreover have "r = Some (Inr True) \<longrightarrow>
        ?pass @ tr \<noteq> [] \<and> last (?pass @ tr) = ServerIsAvailable RCL_RET_OK True"
      using tr(3) by simp
    ultimately show ?thesis by blast
  qed
qed

lemma wait_loop_counts:
  assumes "wait_loop n e timeout start d w = (r, w')"
  shows "queries w' + waits w = queries w + waits w' \<and> waits w \<le> waits w'
       \<and> (event_set w' \<longrightarrow> event_set w \<and> waits w' = waits w)"
  using assms
proof (induction n arbitrary: d w)
  case 0
  then show ?case by simp
next
  case (Suc n)
  show ?case
  proof (cases rule: pass_cases [where e = e and w = w and timeout = timeout and start = start])
    case shutdown
    with Suc.prems show ?thesis by (auto simp add: loop_shutdown after_ok_fields)
  next
    case (query_fails ret0 b0)
    with Suc.prems show ?thesis by (auto simp add: loop_query_fails after_check_fields)
  next
    case ready
    with Suc.prems show ?thesis by (auto simp add: loop_ready after_check_fields)
  next
    case exhausted
    with Suc.prems show ?thesis by (auto simp add: loop_exhausted after_pass_fields)
  next
    case continues
    from Suc.prems continues
    have run: "wait_loop n e timeout start (timeout - (clock e (clock_reads w) - start))
                 (after_pass e d w) = (r, w')"
      by (simp add: loop_continues)
    from Suc.IH [OF run] show ?thesis by (simp add: after_pass_fields)
  qed
qed

lemma wait_loop_ignores_signals:
  assumes "clock_reads w2 = clock_reads w" and "queries w2 = queries w"
    and "ok_checks w2 = ok_checks w"
  shows "fst (wait_loop n (e\<lparr>graph_changed := g\<rparr>) timeout start d2 w2) =
         fst (wait_loop n e timeout start d w)"
  using assms
proof (induction n arbitrary: d d2 w w2)
  case 0
  then show ?case by simp
next
  case (Suc n)
  let ?e = "e\<lparr>graph_changed := g\<rparr>"
  show ?case
  proof (cases rule: pass_cases [where e = e and w = w and timeout = timeout and start = start])
    case shutdown
    with Suc.prems show ?thesis by (simp add: loop_shutdown)
  next
    case (query_fails ret0 b0)
    with Suc.prems show ?thesis by (simp add: loop_query_fails)
  next
    case ready
    with Suc.prems show ?thesis by (simp add: loop_ready)
  next
    case exhausted
    with Suc.prems show ?thesis by (simp add: loop_exhausted)
  next
    case continues
    have "fst (wait_loop n ?e timeout start (timeout - (clock e (clock_reads w) - start))
                 (after_pass ?e d2 w2)) =
          fst (wait_loop n e timeout start (timeout - (clock e (clock_reads w) - start))
                 (after_pass e d w))"
      using Suc.prems by (intro Suc.IH) (simp_all add: after_pass_fields)
    with continues Suc.prems show ?thesis by (simp add: loop_continues)
  qed
qed

lemma call_ignores_signals:
  "fst (wait_for_service_nanoseconds n (e\<lparr>graph_changed := g\<rparr>) timeout w) =
   fst (wait_for_service_nanoseconds n e timeout w)"
proof (cases rule: call_cases [where e = e and w = w and timeout = timeout])
  case stale
  then show ?thesis by (simp add: call_stale)
next
  case (query_fails ret b)
  then show ?thesis by (simp add: call_query_fails)
next
  case ready
  then show ?thesis by (simp add: call_ready)
next
  case probe
  then show ?thesis by (simp add: call_probe)
next
  case enters_loop
  then show ?thesis
    by (simp add: call_enters_loop wait_loop_ignores_signals at_loop_entry_fields)
qed

lemma call_rechecks_after_waits:
  assumes "wait_for_service_nanoseconds n e timeout w = (r, w')"
  shows "(\<exists>tr. trace w' = trace w @ tr \<and> rechecked_after_each_wait tr
            \<and> (r = Some (Inr True) \<longrightarrow>
                 tr \<noteq> [] \<and> last tr = ServerIsAvailable RCL_RET_OK True))
       \<and> (node_alive e \<longrightarrow> \<not> event_set w')
       \<and> queries w' - queries w = (if node_alive e then 1 else 0) + (waits w' - waits w)
       \<and> (\<forall>g. fst (wait_for_service_nanoseconds n (e\<lparr>graph_changed := g\<rparr>) timeout w) = r)"
proof -
  have signals: "\<forall>g. fst (wait_for_service_nanoseconds n (e\<lparr>graph_changed := g\<rparr>) timeout w) = r"
    using assms by (simp add: call_ignores_signals)
  have rest: "(\<exists>tr. trace w' = trace w @ tr \<and> rechecked_after_each_wait tr
            \<and> (r = Some (Inr True) \<longrightarrow>
                 tr \<noteq> [] \<and> last tr = ServerIsAvailable RCL_RET_OK True))
       \<and> (node_alive e \<longrightarrow> \<not> event_set w')
       \<and> queries w' - queries w = (if node_alive e then 1 else 0) + (waits w' - waits w)"
  proof (cases rule: call_cases [where e = e and w = w and timeout = timeout])
    case stale
    with assms show ?thesis by (auto simp add: call_stale primitive_defs)
  next
    case (query_fails ret b)
    with assms show ?thesis by (auto simp add: call_query_fails after_first_check_fields)
  next
    case ready
    with assms show ?thesis by (auto simp add: call_ready after_first_check_fields)
  next
    case probe
    with assms show ?thesis by (auto simp add: call_probe after_first_check_fields)
  next
    case enters_loop
    let ?d = "if 0 < timeout \<and> timeout - (clock e (Suc (clock_reads w)) - clock e (clock_reads w)) < 0
        then 0
        else timeout - (clock e (Suc (clock_reads w)) - clock e (clock_reads w))"
    from assms
    have run: "wait_loop n e timeout (clock e (clock_reads w)) ?d (at_loop_entry e w) = (r, w')"
      unfolding call_enters_loop [OF enters_loop] .
    from wait_loop_trace [OF run] obtain tr where
      tr: "trace w' = trace (at_loop_entry e w) @ tr" "rechecked_after_each_wait tr"
        "r = Some (Inr True) \<longrightarrow> tr \<noteq> [] \<and> last tr = ServerIsAvailable RCL_RET_OK True"
      by blast
    let ?pre = "[SteadyClockNow (clock e (clock_reads w)), NodeGraphLock True, GetGraphEvent,
                 ServerIsAvailable RCL_RET_OK False, SteadyClockNow (clock e (Suc (clock_reads w)))]"
    have "trace w' = trace w @ (?pre @ tr)"
      using tr(1) enters_loop by (simp add: at_loop_entry_fields after_first_check_fields)
    moreover have "rechecked_after_each_wait (?pre @ tr)"
      using tr(2) by (intro rechecked_append) simp_all
    moreover have "r = Some (Inr True) \<longrightarrow>
        ?pre @ tr \<noteq> [] \<and> last (?pre @ tr) = ServerIsAvailable RCL_RET_OK True"
      using tr(3) by simp
    ultimately have first: "\<exists>tr. trace w' = trace w @ tr \<and> rechecked_after_each_wait tr
            \<and> (r = Some (Inr True) \<longrightarrow>
                 tr \<noteq> [] \<and> last tr = ServerIsAvailable RCL_RET_OK True)"
      by blast
    from wait_loop_counts [OF run]
    have "\<not> event_set w'"
      and "queries w' - queries w = (if node_alive e then 1 else 0) + (waits w' - waits w)"
      using enters_loop(1) by (auto simp add: at_loop_entry_fields)
    with first show ?thesis by blast
  qed
  from rest signals show ?thesis by blast
qed

lemma wait_loop_still_running:
  assumes "wait_loop n e timeout start d w = (None, wn)"
  shows "wait_loop (Suc n) e timeout start d w =
           wait_loop (Suc 0) e timeout start
             (if n = 0 then d else timeout - (clock e (clock_reads wn - 1) - start)) wn
       \<and> (if n = 0 then wn = w
           else 0 < timeout - (clock e (clock_reads wn - 1) - start) \<or> timeout < 0)"
  using assms
proof (induction n arbitrary: d w)
  case 0
  then show ?case by simp
next
  case (Suc n)
  show ?case
  proof (cases rule: pass_cases [where e = e and w = w and timeout = timeout and start = start])
    case shutdown
    with Suc.prems show ?thesis by (simp add: loop_shutdown)
  next
    case (query_fails ret0 b0)
    with Suc.prems show ?thesis by (simp add: loop_query_fails)
  next
    case ready
    with Suc.prems show ?thesis by (simp add: loop_ready)
  next
    case exhausted
    with Suc.prems show ?thesis by (simp add: loop_exhausted)
  next
    case continues
    let ?d = "timeout - (clock e (clock_reads w) - start)"
    from Suc.prems continues
    have run: "wait_loop n e timeout start ?d (after_pass e d w) = (None, wn)"
      by (simp add: loop_continues)
    have step: "wait_loop (Suc (Suc n)) e timeout start d w =
                  wait_loop (Suc n) e timeout start ?d (after_pass e d w)"
      using continues by (rule loop_continues)
    show ?thesis
    proof (cases "n = 0")
      case True
      with run have "wn = after_pass e d w" by simp
      with True step continues(3) show ?thesis by (simp add: after_pass_fields)
    next
      case False
      with Suc.IH [OF run] step show ?thesis by simp
    qed
  qed
qed

lemma one_pass:
  "wait_loop (Suc 0) e timeout start d w =
     (if \<not> ok e (ok_checks w) then (Some (Inr False), snd (rclcpp_ok e w))
      else if fst (server_available e (queries w)) \<noteq> RCL_RET_OK
        then (Some (Inl (RCLError (fst (server_available e (queries w))))), after_check e d w)
      else if snd (server_available e (queries w)) then (Some (Inr True), after_check e d w)
      else if 0 < timeout - (clock e (clock_reads w) - start) \<or> timeout < 0
        then (None, after_pass e d w)
      else (Some (Inr False), after_pass e d w))"
proof (cases rule: pass_cases [where e = e and w = w and timeout = timeout and start = start])
  case shutdown
  then show ?thesis by (simp add: loop_shutdown)
next
  case (query_fails ret0 b0)
  then show ?thesis by (simp add: loop_query_fails)
next
  case ready
  then show ?thesis by (simp add: loop_ready)
next
  case exhausted
  then show ?thesis by (simp add: loop_exhausted)
next
  case continues
  then show ?thesis by (simp add: loop_continues)
qed

lemma call_still_running:
  assumes "wait_for_service_nanoseconds n e timeout w = (None, wn)"
  shows "wait_for_service_nanoseconds (Suc n) e timeout w =
     (let x = timeout - (clock e (clock_reads wn - 1) - clock e (clock_reads w));
          d = (if 0 < timeout \<and> x < 0 then 0 else x);
          ret = fst (server_available e (queries wn));
          ready = snd (server_available e (queries wn));
          remaining = timeout - (clock e (clock_reads wn) - clock e (clock_reads w))
      in if \<not> ok e (ok_checks wn) then (Some (Inr False), snd (rclcpp_ok e wn))
         else if ret \<noteq> RCL_RET_OK then (Some (Inl (RCLError ret)), after_check e d wn)
         else if ready then (Some (Inr True), after_check e d wn)
         else if 0 < remaining \<or> timeout < 0 then (None, after_pass e d wn)
         else (Some (Inr False), after_pass e d wn))"
proof (cases rule: call_cases [where e = e and w = w and timeout = timeout])
  case stale
  with assms show ?thesis by (simp add: call_stale)
next
  case (query_fails ret b)
  with assms show ?thesis by (simp add: call_query_fails)
next
  case ready
  with assms show ?thesis by (simp add: call_ready)
next
  case probe
  with assms show ?thesis by (simp add: call_probe)
next
  case enters_loop
  let ?start = "clock e (clock_reads w)"
  let ?xa = "timeout - (clock e (Suc (clock_reads w)) - ?start)"
  let ?da = "if 0 < timeout \<and> ?xa < 0 then 0 else ?xa"
  have call: "wait_for_service_nanoseconds m e timeout w =
                wait_loop m e timeout ?start ?da (at_loop_entry e w)" for m
    by (rule call_enters_loop [OF enters_loop])
  from assms have run: "wait_loop n e timeout ?start ?da (at_loop_entry e w) = (None, wn)"
    unfolding call .
  let ?x = "timeout - (clock e (clock_reads wn - 1) - ?start)"
  let ?d = "if 0 < timeout \<and> ?x < 0 then 0 else ?x"
  have eq: "(if n = 0 then ?da else ?x) = ?d"
  proof (cases "n = 0")
    case True
    with run have "wn = at_loop_entry e w" by simp
    with True show ?thesis by (simp add: at_loop_entry_fields)
  next
    case False
    with wait_loop_still_running [OF run, THEN conjunct2] show ?thesis by auto
  qed
  have "wait_loop (Suc n) e timeout ?start ?da (at_loop_entry e w) =
          wait_loop (Suc 0) e timeout ?start ?d wn"
    using wait_loop_still_running [OF run, THEN conjunct1] unfolding eq .
  then show ?thesis unfolding call one_pass by (simp add: Let_def)
qed

text \<open>
  Claim C1. Whatever the fuel, in the calls made so far every wait on the graph event is
  followed at once by \<^verbatim>\<open>check_and_clear\<close> and then by a readiness query, and the event is
  not signaled once the call has obtained it and returned or completed a pass; the call
  has made one readiness query for the immediate check and exactly one more for each wait;
  a result of \<^verbatim>\<open>true\<close> comes straight after a readiness query that answered "ready", so
  after the last wait; and the result does not depend on which waits were ended by a
  notification, so a wake-up without a change of readiness never makes the call return
  \<^verbatim>\<open>true\<close>. The loop is entered whenever the immediate check answers "not ready" and
  the timeout is not zero. And whenever the call stands at the top of the loop, one more
  unit of fuel makes it do exactly one pass: it returns \<^verbatim>\<open>false\<close> if \<^verbatim>\<open>rclcpp::ok\<close> fails;
  otherwise it waits, clears the event and queries readiness, throws if the query failed,
  returns \<^verbatim>\<open>true\<close> if it answered "ready", and if not reads the clock and stands at the
  top of the loop again when time remains or the timeout is negative, returning
  \<^verbatim>\<open>false\<close> only when neither holds.
\<close>

theorem readiness_rechecked_after_every_wait:
  assumes "wait_for_service_nanoseconds n e timeout w = (r, w')"
  shows "(\<exists>tr. trace w' = trace w @ tr \<and> rechecked_after_each_wait tr
            \<and> (r = Some (Inr True) \<longrightarrow>
                 tr \<noteq> [] \<and> last tr = ServerIsAvailable RCL_RET_OK True))
       \<and> (node_alive e \<longrightarrow> \<not> event_set w')
       \<and> queries w' - queries w = (if node_alive e then 1 else 0) + (waits w' - waits w)
       \<and> (\<forall>g. fst (wait_for_service_nanoseconds n (e\<lparr>graph_changed := g\<rparr>) timeout w) = r)
       \<and> (node_alive e \<and> server_available e (queries w) = (RCL_RET_OK, False) \<and> timeout \<noteq> 0 \<longrightarrow>
            wait_for_service_nanoseconds 0 e timeout w = (None, at_loop_entry e w))
       \<and> (r = None \<longrightarrow>
            wait_for_service_nanoseconds (Suc n) e timeout w =
              (let x = timeout - (clock e (clock_reads w' - 1) - clock e (clock_reads w));
                   d = (if 0 < timeout \<and> x < 0 then 0 else x);
                   ret = fst (server_available e (queries w'));
                   ready = snd (server_available e (queries w'));
                   remaining = timeout - (clock e (clock_reads w') - clock e (clock_reads w))
               in if \<not> ok e (ok_checks w') then (Some (Inr False), snd (rclcpp_ok e w'))
                  else if ret \<noteq> RCL_RET_OK then (Some (Inl (RCLError ret)), after_check e d w')
                  else if ready then (Some (Inr True), after_check e d w')
                  else if 0 < remaining \<or> timeout < 0 then (None, after_pass e d w')
                  else (Some (Inr False), after_pass e d w')))"
proof -
  note old = call_rechecks_after_waits [OF assms]
  have entered: "node_alive e \<and> server_available e (queries w) = (RCL_RET_OK, False) \<and> timeout \<noteq> 0 \<longrightarrow>
            wait_for_service_nanoseconds 0 e timeout w = (None, at_loop_entry e w)"
    by (simp add: call_enters_loop)
  have pass: "r = None \<longrightarrow>
            wait_for_service_nanoseconds (Suc n) e timeout w =
              (let x = timeout - (clock e (clock_reads w' - 1) - clock e (clock_reads w));
                   d = (if 0 < timeout \<and> x < 0 then 0 else x);
                   ret = fst (server_available e (queries w'));
                   ready = snd (server_available e (queries w'));
                   remaining = timeout - (clock e (clock_reads w') - clock e (clock_reads w))
               in if \<not> ok e (ok_checks w') then (Some (Inr False), snd (rclcpp_ok e w'))
                  else if ret \<noteq> RCL_RET_OK then (Some (Inl (RCLError ret)), after_check e d w')
                  else if ready then (Some (Inr True), after_check e d w')
                  else if 0 < remaining \<or> timeout < 0 then (None, after_pass e d w')
                  else (Some (Inr False), after_pass e d w'))"
  proof
    assume "r = None"
    with assms have "wait_for_service_nanoseconds n e timeout w = (None, w')" by simp
    then show "wait_for_service_nanoseconds (Suc n) e timeout w =
              (let x = timeout - (clock e (clock_reads w' - 1) - clock e (clock_reads w));
                   d = (if 0 < timeout \<and> x < 0 then 0 else x);
                   ret = fst (server_available e (queries w'));
                   ready = snd (server_available e (queries w'));
                   remaining = timeout - (clock e (clock_reads w') - clock e (clock_reads w))
               in if \<not> ok e (ok_checks w') then (Some (Inr False), snd (rclcpp_ok e w'))
                  else if ret \<noteq> RCL_RET_OK then (Some (Inl (RCLError ret)), after_check e d w')
                  else if ready then (Some (Inr True), after_check e d w')
                  else if 0 < remaining \<or> timeout < 0 then (None, after_pass e d w')
                  else (Some (Inr False), after_pass e d w'))"
      by (rule call_still_running)
  qed
  from old entered pass show ?thesis by (intro conjI) blast+
qed

theorem readiness_rechecked_after_every_wait_witness:
  "wait_for_service_nanoseconds 1 (scenario True ready_from_third_query no_shutdown) 50 fresh_world =
     (None,
      \<lparr>clock_reads = 3, queries = 2, ok_checks = 1, waits = 1, event_set = False,
       trace = [SteadyClockNow 0, NodeGraphLock True, GetGraphEvent,
         ServerIsAvailable 0 False, SteadyClockNow 10, RclcppOk True,
         WaitForGraphChange 40 True, CheckAndClear True,
         ServerIsAvailable 0 False, SteadyClockNow 20]\<rparr>)
   \<and> wait_for_service_nanoseconds 2 (scenario True ready_from_third_query no_shutdown) 50 fresh_world =
     (Some (Inr True),
      \<lparr>clock_reads = 3, queries = 3, ok_checks = 2, waits = 2, event_set = False,
       trace = [SteadyClockNow 0, NodeGraphLock True, GetGraphEvent,
         ServerIsAvailable 0 False, SteadyClockNow 10, RclcppOk True,
         WaitForGraphChange 40 True, CheckAndClear True,
         ServerIsAvailable 0 False, SteadyClockNow 20, RclcppOk True,
         WaitForGraphChange 30 False, CheckAndClear False,
         ServerIsAvailable 0 True]\<rparr>)
   \<and> fst (wait_for_service_nanoseconds 1
            ((scenario True ready_from_third_query no_shutdown)\<lparr>graph_changed := no_notification\<rparr>)
            50 fresh_world) = None"
proof -
  let ?e = "scenario True ready_from_third_query no_shutdown"
  let ?w1 = "\<lparr>clock_reads = 3, queries = 2, ok_checks = 1, waits = 1, event_set = False,
       trace = [SteadyClockNow 0, NodeGraphLock True, GetGraphEvent,
         ServerIsAvailable 0 False, SteadyClockNow 10, RclcppOk True,
         WaitForGraphChange 40 True, CheckAndClear True,
         ServerIsAvailable 0 False, SteadyClockNow 20]\<rparr>"
  have run: "wait_for_service_nanoseconds 1 ?e 50 fresh_world = (None, ?w1)"
    by code_simp
  note facts = readiness_rechecked_after_every_wait [OF run]
  from facts have quiet:
    "fst (wait_for_service_nanoseconds 1 (?e\<lparr>graph_changed := no_notification\<rparr>) 50 fresh_world) = None"
    by blast
  from facts have "wait_for_service_nanoseconds (Suc 1) ?e 50 fresh_world =
     (Some (Inr True),
      \<lparr>clock_reads = 3, queries = 3, ok_checks = 2, waits = 2, event_set = False,
       trace = [SteadyClockNow 0, NodeGraphLock True, GetGraphEvent,
         ServerIsAvailable 0 False, SteadyClockNow 10, RclcppOk True,
         WaitForGraphChange 40 True, CheckAndClear True,
         ServerIsAvailable 0 False, SteadyClockNow 20, RclcppOk True,
         WaitForGraphChange 30 False, CheckAndClear False,
         ServerIsAvailable 0 True]\<rparr>)"
    by (simp add: sample_defs ready_from_third_query_def fresh_world_def primitive_defs
          RCL_RET_OK_def)
  then have "wait_for_service_nanoseconds 2 ?e 50 fresh_world =
     (Some (Inr True),
      \<lparr>clock_reads = 3, queries = 3, ok_checks = 2, waits = 2, event_set = False,
       trace = [SteadyClockNow 0, NodeGraphLock True, GetGraphEvent,
         ServerIsAvailable 0 False, SteadyClockNow 10, RclcppOk True,
         WaitForGraphChange 40 True, CheckAndClear True,
         ServerIsAvailable 0 False, SteadyClockNow 20, RclcppOk True,
         WaitForGraphChange 30 False, CheckAndClear False,
         ServerIsAvailable 0 True]\<rparr>)"
    by (simp add: numeral_2_eq_2)
  with run quiet show ?thesis by blast
qed

subsection \<open>The duration given to each wait\<close>

lemma monotonic_clock_le:
  "monotonic_clock e \<Longrightarrow> i \<le> j \<Longrightarrow> clock e i \<le> clock e j"
  unfolding monotonic_clock_def by (rule lift_Suc_mono_le) simp_all

lemma int64_representable: "representable x \<Longrightarrow> int64 x = x"
  by (simp add: representable_def int64_def)

lemma wait_durations_append:
  "wait_durations (xs @ ys) = wait_durations xs @ wait_durations ys"
  by (induction xs) (auto split: call.splits)

lemma wait_loop_Suc:
  "wait_loop (Suc n) e timeout start d w =
     (if \<not> ok e (ok_checks w) then (Some (Inr False), snd (rclcpp_ok e w))
      else if fst (server_available e (queries w)) \<noteq> RCL_RET_OK
        then (Some (Inl (RCLError (fst (server_available e (queries w))))), after_check e d w)
      else if snd (server_available e (queries w)) then (Some (Inr True), after_check e d w)
      else if 0 < timeout - (clock e (clock_reads w) - start) \<or> timeout < 0
        then wait_loop n e timeout start (timeout - (clock e (clock_reads w) - start))
               (after_pass e d w)
      else (Some (Inr False), after_pass e d w))"
proof (cases rule: pass_cases [where e = e and w = w and timeout = timeout and start = start])
  case shutdown
  then show ?thesis by (simp add: loop_shutdown)
next
  case (query_fails ret0 b0)
  then show ?thesis by (simp add: loop_query_fails)
next
  case ready
  then show ?thesis by (simp add: loop_ready)
next
  case exhausted
  then show ?thesis by (simp add: loop_exhausted)
next
  case continues
  then show ?thesis by (simp add: loop_continues)
qed

lemma wait_loop_int64_Suc:
  "wait_loop_int64 (Suc n) e timeout start d w =
     (if \<not> ok e (ok_checks w) then (Some (Inr False), snd (rclcpp_ok e w))
      else if fst (server_available e (queries w)) \<noteq> RCL_RET_OK
        then (Some (Inl (RCLError (fst (server_available e (queries w))))), after_check e d w)
      else if snd (server_available e (queries w)) then (Some (Inr True), after_check e d w)
      else if 0 < int64 (timeout - int64 (clock e (clock_reads w) - start)) \<or> timeout < 0
        then wait_loop_int64 n e timeout start
               (int64 (timeout - int64 (clock e (clock_reads w) - start))) (after_pass e d w)
      else (Some (Inr False), after_pass e d w))"
  by (cases "server_available e (queries w)") (simp add: primitive_defs)

declare wait_loop_int64.simps(2) [simp del]

lemma wait_loop_int64_clock_reads:
  "wait_loop_int64 n e timeout start d w = (r, w') \<Longrightarrow> clock_reads w \<le> clock_reads w'"
proof (induction n arbitrary: d w)
  case 0
  then show ?case by simp
next
  case (Suc n)
  from Suc.prems show ?case
    by (auto simp add: wait_loop_int64_Suc after_ok_fields after_check_fields after_pass_fields
          split: if_splits dest!: Suc.IH)
qed

lemma wait_loop_int64_agrees:
  assumes "wait_loop_int64 n e timeout start d w = (r, w')"
    and "\<forall>k. clock_reads w \<le> k \<and> k < clock_reads w' \<longrightarrow>
           representable (clock e k - start) \<and> representable (timeout - (clock e k - start))"
  shows "wait_loop n e timeout start d w = (r, w')"
  using assms
proof (induction n arbitrary: d w)
  case 0
  then show ?case by simp
next
  case (Suc n)
  let ?x = "timeout - (clock e (clock_reads w) - start)"
  show ?case
  proof (cases "ok e (ok_checks w) \<and> fst (server_available e (queries w)) = RCL_RET_OK
                 \<and> \<not> snd (server_available e (queries w))")
    case False
    with Suc.prems(1) show ?thesis
      by (auto simp add: wait_loop_int64_Suc wait_loop_Suc split: if_splits)
  next
    case True
    have "clock_reads w < clock_reads w'"
    proof (cases "0 < int64 (timeout - int64 (clock e (clock_reads w) - start)) \<or> timeout < 0")
      case c: True
      with True Suc.prems(1)
      have "wait_loop_int64 n e timeout start
              (int64 (timeout - int64 (clock e (clock_reads w) - start))) (after_pass e d w) = (r, w')"
        by (simp add: wait_loop_int64_Suc)
      from wait_loop_int64_clock_reads [OF this] show ?thesis by (simp add: after_pass_fields)
    next
      case c: False
      with True Suc.prems(1) have "w' = after_pass e d w"
        by (auto simp add: wait_loop_int64_Suc)
      then show ?thesis by (simp add: after_pass_fields)
    qed
    with Suc.prems(2)
    have "representable (clock e (clock_reads w) - start)" "representable ?x"
      by auto
    then have eq: "int64 (timeout - int64 (clock e (clock_reads w) - start)) = ?x"
      by (simp add: int64_representable)
    show ?thesis
    proof (cases "0 < ?x \<or> timeout < 0")
      case c: True
      with True Suc.prems(1) eq
      have run: "wait_loop_int64 n e timeout start ?x (after_pass e d w) = (r, w')"
        by (simp add: wait_loop_int64_Suc)
      have "\<forall>k. clock_reads (after_pass e d w) \<le> k \<and> k < clock_reads w' \<longrightarrow>
           representable (clock e k - start) \<and> representable (timeout - (clock e k - start))"
        using Suc.prems(2) by (simp add: after_pass_fields)
      from Suc.IH [OF run this] True c show ?thesis by (simp add: wait_loop_Suc)
    next
      case c: False
      with True Suc.prems(1) eq show ?thesis
        by (simp add: wait_loop_int64_Suc wait_loop_Suc)
    qed
  qed
qed

lemma wait_loop_exact_durations:
  assumes "wait_loop n e timeout start d w = (r, w')"
  shows "\<exists>tr. trace w' = trace w @ tr
           \<and> wait_durations tr =
               map (\<lambda>i. if i = 0 then d else timeout - (clock e (clock_reads w + i - 1) - start))
                 [0..<waits w' - waits w]"
  using assms
proof (induction n arbitrary: d w)
  case 0
  then show ?case by simp
next
  case (Suc n)
  show ?case
  proof (cases rule: pass_cases [where e = e and w = w and timeout = timeout and start = start])
    case shutdown
    with Suc.prems show ?thesis by (auto simp add: loop_shutdown after_ok_fields)
  next
    case (query_fails ret0 b0)
    with Suc.prems show ?thesis by (auto simp add: loop_query_fails after_check_fields)
  next
    case ready
    with Suc.prems show ?thesis by (auto simp add: loop_ready after_check_fields)
  next
    case exhausted
    with Suc.prems show ?thesis
      by (auto simp add: loop_exhausted after_pass_fields after_check_fields)
  next
    case continues
    let ?d = "timeout - (clock e (clock_reads w) - start)"
    let ?f = "\<lambda>i. if i = 0 then d else timeout - (clock e (clock_reads w + i - 1) - start)"
    from Suc.prems continues
    have run: "wait_loop n e timeout start ?d (after_pass e d w) = (r, w')"
      by (simp add: loop_continues)
    from Suc.IH [OF run] obtain tr2 where
      tr2: "trace w' = trace (after_pass e d w) @ tr2"
        "wait_durations tr2 =
           map (\<lambda>i. if i = 0 then ?d
                     else timeout - (clock e (clock_reads (after_pass e d w) + i - 1) - start))
             [0..<waits w' - waits (after_pass e d w)]"
      by blast
    from wait_loop_counts [OF run] have more: "Suc (waits w) \<le> waits w'"
      by (simp add: after_pass_fields)
    let ?m = "waits w' - Suc (waits w)"
    let ?pass = "[RclcppOk True, WaitForGraphChange d (graph_changed e (waits w)),
                  CheckAndClear (event_set w \<or> graph_changed e (waits w)),
                  ServerIsAvailable RCL_RET_OK False,
                  SteadyClockNow (clock e (clock_reads w))]"
    have tr: "trace w' = trace w @ (?pass @ tr2)"
      using tr2(1) continues by (simp add: after_pass_fields after_check_fields)
    have "wait_durations (?pass @ tr2) = d # wait_durations tr2"
      by simp
    also have "wait_durations tr2 = map (\<lambda>i. ?f (Suc i)) [0..<?m]"
      unfolding tr2(2) by (rule map_cong) (auto simp add: after_pass_fields)
    also have "d # map (\<lambda>i. ?f (Suc i)) [0..<?m] = map ?f [0..<Suc ?m]"
      by (simp add: map_upt_Suc del: upt_Suc)
    also from more have "Suc ?m = waits w' - waits w" by simp
    finally have "wait_durations (?pass @ tr2) = map ?f [0..<waits w' - waits w]" .
    with tr show ?thesis by blast
  qed
qed

lemma call_unfold:
  "wait_for_service_nanoseconds n e timeout w =
     (if \<not> node_alive e
        then (Some (Inl InvalidNodeError), snd (node_graph_lock e (snd (steady_clock_now e w))))
      else if fst (server_available e (queries w)) \<noteq> RCL_RET_OK
        then (Some (Inl (RCLError (fst (server_available e (queries w))))), after_first_check e w)
      else if snd (server_available e (queries w)) then (Some (Inr True), after_first_check e w)
      else if timeout = 0 then (Some (Inr False), after_first_check e w)
      else wait_loop n e timeout (clock e (clock_reads w))
             (if 0 < timeout
                  \<and> timeout - (clock e (Suc (clock_reads w)) - clock e (clock_reads w)) < 0
              then 0
              else timeout - (clock e (Suc (clock_reads w)) - clock e (clock_reads w)))
             (at_loop_entry e w))"
  by (cases "server_available e (queries w)")
     (simp add: wait_for_service_nanoseconds_def primitive_defs)

lemma call_int64_unfold:
  "wait_for_service_nanoseconds_int64 n e timeout w =
     (if \<not> node_alive e
        then (Some (Inl InvalidNodeError), snd (node_graph_lock e (snd (steady_clock_now e w))))
      else if fst (server_available e (queries w)) \<noteq> RCL_RET_OK
        then (Some (Inl (RCLError (fst (server_available e (queries w))))), after_first_check e w)
      else if snd (server_available e (queries w)) then (Some (Inr True), after_first_check e w)
      else if timeout = 0 then (Some (Inr False), after_first_check e w)
      else wait_loop_int64 n e timeout (clock e (clock_reads w))
             (if 0 < timeout
                  \<and> int64 (timeout - int64 (clock e (Suc (clock_reads w)) - clock e (clock_reads w))) < 0
              then 0
              else int64 (timeout - int64 (clock e (Suc (clock_reads w)) - clock e (clock_reads w))))
             (at_loop_entry e w))"
  by (cases "server_available e (queries w)")
     (simp add: wait_for_service_nanoseconds_int64_def primitive_defs)

lemma call_int64_agrees:
  assumes "wait_for_service_nanoseconds_int64 n e timeout w = (r, w')"
    and "\<forall>k. clock_reads w < k \<and> k < clock_reads w' \<longrightarrow>
           representable (clock e k - clock e (clock_reads w))
           \<and> representable (timeout - (clock e k - clock e (clock_reads w)))"
  shows "wait_for_service_nanoseconds n e timeout w = (r, w')"
proof (cases "node_alive e \<and> fst (server_available e (queries w)) = RCL_RET_OK
               \<and> \<not> snd (server_available e (queries w)) \<and> timeout \<noteq> 0")
  case False
  with assms(1) show ?thesis
    by (auto simp add: call_int64_unfold call_unfold split: if_splits)
next
  case True
  let ?start = "clock e (clock_reads w)"
  let ?x = "timeout - (clock e (Suc (clock_reads w)) - ?start)"
  let ?y = "int64 (timeout - int64 (clock e (Suc (clock_reads w)) - ?start))"
  from True assms(1)
  have run: "wait_loop_int64 n e timeout ?start (if 0 < timeout \<and> ?y < 0 then 0 else ?y)
               (at_loop_entry e w) = (r, w')"
    by (simp add: call_int64_unfold)
  from wait_loop_int64_clock_reads [OF run] have reads: "Suc (Suc (clock_reads w)) \<le> clock_reads w'"
    by (simp add: at_loop_entry_fields)
  with assms(2) have "representable (clock e (Suc (clock_reads w)) - ?start)" "representable ?x"
    by auto
  then have eq: "?y = ?x" by (simp add: int64_representable)
  have "\<forall>k. clock_reads (at_loop_entry e w) \<le> k \<and> k < clock_reads w' \<longrightarrow>
           representable (clock e k - ?start) \<and> representable (timeout - (clock e k - ?start))"
    using assms(2) by (simp add: at_loop_entry_fields)
  moreover from run
  have "wait_loop_int64 n e timeout ?start (if 0 < timeout \<and> ?x < 0 then 0 else ?x)
          (at_loop_entry e w) = (r, w')"
    unfolding eq .
  ultimately
  have "wait_loop n e timeout ?start (if 0 < timeout \<and> ?x < 0 then 0 else ?x)
          (at_loop_entry e w) = (r, w')"
    by (intro wait_loop_int64_agrees)
  moreover from True
  have "wait_for_service_nanoseconds n e timeout w =
          wait_loop n e timeout ?start (if 0 < timeout \<and> ?x < 0 then 0 else ?x)
            (at_loop_entry e w)"
    by (intro call_enters_loop) (auto simp add: prod_eq_iff)
  ultimately show ?thesis by (simp only:)
qed

lemma call_exact_durations:
  assumes "wait_for_service_nanoseconds n e timeout w = (r, w')" and "timeout < 0"
  shows "\<exists>tr. trace w' = trace w @ tr
           \<and> wait_durations tr =
               map (\<lambda>i. timeout - (clock e (Suc (clock_reads w + i)) - clock e (clock_reads w)))
                 [0..<waits w' - waits w]"
proof (cases rule: call_cases [where e = e and w = w and timeout = timeout])
  case stale
  with assms(1) show ?thesis by (auto simp add: call_stale primitive_defs)
next
  case (query_fails ret b)
  with assms(1) show ?thesis by (auto simp add: call_query_fails after_first_check_fields)
next
  case ready
  with assms(1) show ?thesis by (auto simp add: call_ready after_first_check_fields)
next
  case probe
  with assms(2) show ?thesis by simp
next
  case enters_loop
  let ?start = "clock e (clock_reads w)"
  let ?x = "timeout - (clock e (Suc (clock_reads w)) - ?start)"
  from assms enters_loop
  have run: "wait_loop n e timeout ?start ?x (at_loop_entry e w) = (r, w')"
    by (simp add: call_enters_loop)
  from wait_loop_exact_durations [OF run] obtain tr2 where
    tr2: "trace w' = trace (at_loop_entry e w) @ tr2"
      "wait_durations tr2 =
         map (\<lambda>i. if i = 0 then ?x
                   else timeout - (clock e (clock_reads (at_loop_entry e w) + i - 1) - ?start))
           [0..<waits w' - waits (at_loop_entry e w)]"
    by blast
  let ?pre = "[SteadyClockNow (clock e (clock_reads w)), NodeGraphLock True, GetGraphEvent,
               ServerIsAvailable RCL_RET_OK False, SteadyClockNow (clock e (Suc (clock_reads w)))]"
  have tr: "trace w' = trace w @ (?pre @ tr2)"
    using tr2(1) enters_loop by (simp add: at_loop_entry_fields after_first_check_fields)
  have "wait_durations (?pre @ tr2) = wait_durations tr2" by simp
  also have "\<dots> = map (\<lambda>i. timeout - (clock e (Suc (clock_reads w + i)) - ?start))
                      [0..<waits w' - waits w]"
    unfolding tr2(2) by (rule map_cong) (auto simp add: at_loop_entry_fields)
  finally show ?thesis using tr by blast
qed

text \<open>
  Claim C9, as the code has it. Take a negative timeout, a steady clock that does not run
  backwards, and a call in which the elapsed time \<^verbatim>\<open>now() - start\<close> and the budget
  \<^verbatim>\<open>timeout - (now() - start)\<close> fit in 64 bits at every clock reading the call makes after
  \<^verbatim>\<open>start\<close>. Then the 64-bit code runs exactly as the embedding over the integers, and
  the durations it gives to its waits are, in order, \<^verbatim>\<open>timeout - (now() - start)\<close> for the
  first, second, ... clock reading after \<^verbatim>\<open>start\<close>: the reading of line 110 for the first
  wait and that of line 131 of the pass before for every later one, never a clamped
  value. Each of them is negative, which the wait primitive reads as an unbounded wait.
\<close>

theorem negative_timeout_passes_unclamped_budget:
  assumes "timeout < 0" and "monotonic_clock e"
    and "wait_for_service_nanoseconds_int64 n e timeout w = (r, w')"
    and "\<forall>k. clock_reads w < k \<and> k < clock_reads w' \<longrightarrow>
           representable (clock e k - clock e (clock_reads w))
           \<and> representable (timeout - (clock e k - clock e (clock_reads w)))"
  shows "wait_for_service_nanoseconds n e timeout w = (r, w')
       \<and> (\<exists>tr. trace w' = trace w @ tr
             \<and> wait_durations tr =
                 map (\<lambda>i. timeout - (clock e (Suc (clock_reads w + i)) - clock e (clock_reads w)))
                   [0..<waits w' - waits w]
             \<and> (\<forall>d \<in> set (wait_durations tr). d < 0 \<and> wait_kind_of d = Unbounded))"
proof -
  from call_int64_agrees [OF assms(3,4)]
  have same: "wait_for_service_nanoseconds n e timeout w = (r, w')" .
  from call_exact_durations [OF same assms(1)] obtain tr where
    tr: "trace w' = trace w @ tr"
      "wait_durations tr =
         map (\<lambda>i. timeout - (clock e (Suc (clock_reads w + i)) - clock e (clock_reads w)))
           [0..<waits w' - waits w]"
    by blast
  have "d < 0 \<and> wait_kind_of d = Unbounded" if "d \<in> set (wait_durations tr)" for d
  proof -
    from that tr(2) obtain i where
      "d = timeout - (clock e (Suc (clock_reads w + i)) - clock e (clock_reads w))"
      by auto
    moreover from assms(2)
    have "clock e (clock_reads w) \<le> clock e (Suc (clock_reads w + i))"
      by (simp add: monotonic_clock_le)
    ultimately have "d < 0" using assms(1) by simp
    then show ?thesis by (simp add: wait_kind_of_def)
  qed
  with same tr show ?thesis by blast
qed

theorem negative_timeout_passes_unclamped_budget_witness:
  "wait_for_service_nanoseconds 5 (scenario True ready_from_third_query no_shutdown) (- 1)
     fresh_world =
   wait_for_service_nanoseconds_int64 5 (scenario True ready_from_third_query no_shutdown) (- 1)
     fresh_world
   \<and> wait_durations (trace (snd (wait_for_service_nanoseconds_int64 5
        (scenario True ready_from_third_query no_shutdown) (- 1) fresh_world))) = [- 11, - 21]
   \<and> wait_kind_of (- 11) = Unbounded \<and> wait_kind_of (- 21) = Unbounded"
proof -
  let ?e = "scenario True ready_from_third_query no_shutdown"
  let ?w = "\<lparr>clock_reads = 3, queries = 3, ok_checks = 2, waits = 2, event_set = False,
      trace = [SteadyClockNow 0, NodeGraphLock True, GetGraphEvent,
        ServerIsAvailable 0 False, SteadyClockNow 10, RclcppOk True,
        WaitForGraphChange (- 11) True, CheckAndClear True,
        ServerIsAvailable 0 False, SteadyClockNow 20, RclcppOk True,
        WaitForGraphChange (- 21) False, CheckAndClear False,
        ServerIsAvailable 0 True]\<rparr>"
  have run: "wait_for_service_nanoseconds_int64 5 ?e (- 1) fresh_world = (Some (Inr True), ?w)"
    by code_simp
  have neg: "(- 1 :: int) < 0" by simp
  have mono: "monotonic_clock ?e"
    by (simp add: monotonic_clock_def sample_defs)
  have fits: "\<forall>k. clock_reads fresh_world < k \<and> k < clock_reads ?w \<longrightarrow>
           representable (clock ?e k - clock ?e (clock_reads fresh_world))
           \<and> representable (- 1 - (clock ?e k - clock ?e (clock_reads fresh_world)))"
    by (auto simp add: representable_def sample_defs fresh_world_def)
  note facts = negative_timeout_passes_unclamped_budget [OF neg mono run fits]
  from facts have same: "wait_for_service_nanoseconds 5 ?e (- 1) fresh_world = (Some (Inr True), ?w)"
    by blast
  from facts obtain tr where
    tr: "trace ?w = trace fresh_world @ tr"
      "\<forall>d \<in> set (wait_durations tr). d < 0 \<and> wait_kind_of d = Unbounded"
    by blast
  from tr(1) have "tr = trace ?w" by (simp add: fresh_world_def)
  with tr(2) have "wait_kind_of (- 11) = Unbounded \<and> wait_kind_of (- 21) = Unbounded"
    by simp
  with run same show ?thesis by simp
qed

text \<open>
  Claim C9 as stated covers every negative timeout. With the least 64-bit timeout and a
  clock that advances by 10 between readings, the budget of line 110 would be
  \<open>- 9223372036854775818\<close>, which no 64-bit count holds: the subtraction wraps, and the
  waits are given the positive durations \<open>9223372036854775798\<close> and
  \<open>9223372036854775788\<close>, which bound them.
\<close>

theorem minimal_timeout_passes_positive_duration:
  "(- 9223372036854775808 :: int) < 0
   \<and> monotonic_clock (scenario True never_ready no_shutdown)
   \<and> wait_durations (trace (snd (wait_for_service_nanoseconds_int64 2
        (scenario True never_ready no_shutdown) (- 9223372036854775808) fresh_world))) =
       [9223372036854775798, 9223372036854775788]
   \<and> wait_kind_of 9223372036854775798 = Bounded 9223372036854775798
   \<and> - 9223372036854775808 - (clock (scenario True never_ready no_shutdown) 1
                                - clock (scenario True never_ready no_shutdown) 0) =
       - 9223372036854775818"
proof -
  have "wait_durations (trace (snd (wait_for_service_nanoseconds_int64 2
        (scenario True never_ready no_shutdown) (- 9223372036854775808) fresh_world))) =
       [9223372036854775798, 9223372036854775788]"
    by code_simp
  moreover have "monotonic_clock (scenario True never_ready no_shutdown)"
    by (simp add: monotonic_clock_def sample_defs)
  ultimately show ?thesis by (simp add: wait_kind_of_def sample_defs)
qed

subsection \<open>Waiting without a bound\<close>

lemma wait_loop_returns_only_on_shutdown:
  assumes "timeout < 0" and "\<forall>k. server_available e k = (RCL_RET_OK, False)"
    and "wait_loop n e timeout start d w = (Some x, w')"
  shows "x = Inr False \<and> trace w' \<noteq> [] \<and> last (trace w') = RclcppOk False
       \<and> (\<exists>k\<ge>ok_checks w. \<not> ok e k)"
  using assms(3)
proof (induction n arbitrary: d w)
  case 0
  then show ?case by simp
next
  case (Suc n)
  from assms(2) have never: "server_available e (queries w) = (RCL_RET_OK, False)" by simp
  show ?case
  proof (cases "ok e (ok_checks w)")
    case False
    with Suc.prems show ?thesis by (auto simp add: loop_shutdown after_ok_fields)
  next
    case True
    with Suc.prems never assms(1)
    have run: "wait_loop n e timeout start (timeout - (clock e (clock_reads w) - start))
                 (after_pass e d w) = (Some x, w')"
      by (simp add: loop_continues)
    from Suc.IH [OF run] obtain k where
      "x = Inr False" "trace w' \<noteq> []" "last (trace w') = RclcppOk False"
      "ok_checks (after_pass e d w) \<le> k" "\<not> ok e k"
      by blast
    then show ?thesis by (auto simp add: after_pass_fields intro: Suc_leD)
  qed
qed

lemma wait_loop_returns_on_shutdown:
  assumes "timeout < 0" and "\<forall>k. server_available e k = (RCL_RET_OK, False)"
    and "ok_checks w \<le> k" and "\<not> ok e k"
  shows "\<exists>n w'. wait_loop n e timeout start d w = (Some (Inr False), w')"
  using assms(3)
proof (induction "k - ok_checks w" arbitrary: d w)
  case 0
  with assms(4) have "\<not> ok e (ok_checks w)" by simp
  then have "wait_loop (Suc 0) e timeout start d w = (Some (Inr False), snd (rclcpp_ok e w))"
    by (rule loop_shutdown)
  then show ?case by blast
next
  case (Suc m)
  from assms(2) have never: "server_available e (queries w) = (RCL_RET_OK, False)" by simp
  show ?case
  proof (cases "ok e (ok_checks w)")
    case False
    then have "wait_loop (Suc 0) e timeout start d w = (Some (Inr False), snd (rclcpp_ok e w))"
      by (rule loop_shutdown)
    then show ?thesis by blast
  next
    case True
    let ?d = "timeout - (clock e (clock_reads w) - start)"
    from Suc.hyps(2) have "m = k - ok_checks (after_pass e d w)"
      by (simp add: after_pass_fields)
    moreover from Suc.hyps(2) have "ok_checks (after_pass e d w) \<le> k"
      by (simp add: after_pass_fields)
    ultimately obtain n w' where
      "wait_loop n e timeout start ?d (after_pass e d w) = (Some (Inr False), w')"
      using Suc.hyps(1) by blast
    with True never assms(1)
    have "wait_loop (Suc n) e timeout start d w = (Some (Inr False), w')"
      by (simp add: loop_continues)
    then show ?thesis by blast
  qed
qed

text \<open>
  Claim C6. With a negative timeout, a live parent context and a readiness query that
  always succeeds with "not ready", some amount of fuel lets the call return \<^verbatim>\<open>false\<close>
  exactly when \<^verbatim>\<open>rclcpp::ok\<close> answers \<open>False\<close> at one of the checks from this call on;
  and whenever the call returns at all, it returns \<^verbatim>\<open>false\<close> with that check of
  \<^verbatim>\<open>rclcpp::ok\<close> as its last call, never through the exit at the bottom of the loop. So
  without a shutdown the call does not return, whatever the fuel.
\<close>

theorem negative_timeout_false_only_on_shutdown:
  assumes "timeout < 0" and "node_alive e"
    and "\<forall>k. server_available e k = (RCL_RET_OK, False)"
  shows "((\<exists>n w'. wait_for_service_nanoseconds n e timeout w = (Some (Inr False), w'))
            \<longleftrightarrow> (\<exists>k\<ge>ok_checks w. \<not> ok e k))
       \<and> (\<forall>n x w'. wait_for_service_nanoseconds n e timeout w = (Some x, w') \<longrightarrow>
             x = Inr False \<and> trace w' \<noteq> [] \<and> last (trace w') = RclcppOk False)"
proof -
  let ?start = "clock e (clock_reads w)"
  let ?d = "timeout - (clock e (Suc (clock_reads w)) - ?start)"
  from assms(3) have never: "server_available e (queries w) = (RCL_RET_OK, False)" by simp
  have call: "wait_for_service_nanoseconds n e timeout w =
                wait_loop n e timeout ?start ?d (at_loop_entry e w)" for n
    using assms(1,2) never by (simp add: call_enters_loop)
  have only: "x = Inr False \<and> trace w' \<noteq> [] \<and> last (trace w') = RclcppOk False
              \<and> (\<exists>k\<ge>ok_checks w. \<not> ok e k)"
    if "wait_for_service_nanoseconds n e timeout w = (Some x, w')" for n x w'
    using wait_loop_returns_only_on_shutdown [OF assms(1,3) that [unfolded call]]
    by (simp add: at_loop_entry_fields)
  have "\<exists>n w'. wait_for_service_nanoseconds n e timeout w = (Some (Inr False), w')"
    if "\<exists>k\<ge>ok_checks w. \<not> ok e k"
  proof -
    from that obtain k where "ok_checks (at_loop_entry e w) \<le> k" "\<not> ok e k"
      by (auto simp add: at_loop_entry_fields)
    from wait_loop_returns_on_shutdown [OF assms(1,3) this]
    show ?thesis unfolding call .
  qed
  with only show ?thesis by blast
qed

theorem negative_timeout_false_only_on_shutdown_witness:
  "(\<exists>n w'. wait_for_service_nanoseconds n
              (scenario True never_ready shutdown_at_third_check) (- 1) fresh_world =
            (Some (Inr False), w'))
   \<and> fst (wait_for_service_nanoseconds 2
            (scenario True never_ready shutdown_at_third_check) (- 1) fresh_world) = None
   \<and> fst (wait_for_service_nanoseconds 3
            (scenario True never_ready shutdown_at_third_check) (- 1) fresh_world) =
       Some (Inr False)"
proof -
  let ?e = "scenario True never_ready shutdown_at_third_check"
  have neg: "(- 1 :: int) < 0" by simp
  have alive: "node_alive ?e" by (simp add: sample_defs)
  have never: "\<forall>k. server_available ?e k = (RCL_RET_OK, False)" by (simp add: sample_defs)
  have "\<exists>k\<ge>ok_checks fresh_world. \<not> ok ?e k"
    by (rule exI [of _ 2]) (simp add: sample_defs shutdown_at_third_check_def fresh_world_def)
  with negative_timeout_false_only_on_shutdown [OF neg alive never, of fresh_world]
  have "\<exists>n w'. wait_for_service_nanoseconds n ?e (- 1) fresh_world = (Some (Inr False), w')"
    by blast
  moreover have "fst (wait_for_service_nanoseconds 2 ?e (- 1) fresh_world) = None"
    by code_simp
  moreover have "fst (wait_for_service_nanoseconds 3 ?e (- 1) fresh_world) = Some (Inr False)"
    by code_simp
  ultimately show ?thesis by blast
qed

subsection \<open>The remaining budget of a bounded wait\<close>

text \<open>
  For clock readings that are not negative and do not decrease, the two subtractions of
  line 110 and line 131 stay inside the 64-bit range whenever the timeout is positive; for
  a negative timeout they do as long as the elapsed time is at most \<open>timeout + 2 ^ 63\<close>.
\<close>

lemma time_to_wait_representable:
  assumes "representable timeout" and "representable start" and "representable now"
    and "0 \<le> start" and "start \<le> now"
    and "0 < timeout \<or> now - start \<le> timeout + 2 ^ 63"
  shows "representable (now - start) \<and> representable (timeout - (now - start))"
  using assms unfolding representable_def by auto

text \<open>
  Claim C4, as the code has it. Let the timeout be positive, the parent context alive, the
  immediate check answer "not ready" and the budget \<^verbatim>\<open>timeout - (now() - start)\<close> computed
  after it be negative, on a steady clock that does not run backwards. If \<^verbatim>\<open>rclcpp::ok\<close>
  holds at the top of the loop, then with fuel for one pass the call makes exactly one
  wait, with duration zero, clears the event, makes exactly one more readiness query and
  returns: the query's exception if it failed, \<^verbatim>\<open>true\<close> if it answered "ready", and
  otherwise \<^verbatim>\<open>false\<close> after the clock reading of line 131, since the budget is still not
  positive and the timeout is not negative.
\<close>

theorem clamped_budget_gives_one_nonblocking_pass:
  assumes "node_alive e" and "server_available e (queries w) = (RCL_RET_OK, False)"
    and "0 < timeout"
    and "timeout - (clock e (Suc (clock_reads w)) - clock e (clock_reads w)) < 0"
    and "monotonic_clock e"
    and "ok e (ok_checks w)"
    and "server_available e (Suc (queries w)) = (ret, b)"
  shows "fst (wait_for_service_nanoseconds (Suc n) e timeout w) =
           Some (if ret \<noteq> RCL_RET_OK then Inl (RCLError ret) else Inr b)
       \<and> trace (snd (wait_for_service_nanoseconds (Suc n) e timeout w)) =
           trace w @
           [SteadyClockNow (clock e (clock_reads w)), NodeGraphLock True, GetGraphEvent,
            ServerIsAvailable RCL_RET_OK False, SteadyClockNow (clock e (Suc (clock_reads w))),
            RclcppOk True, WaitForGraphChange 0 (graph_changed e (waits w)),
            CheckAndClear (graph_changed e (waits w)), ServerIsAvailable ret b] @
           (if ret = RCL_RET_OK \<and> \<not> b
            then [SteadyClockNow (clock e (Suc (Suc (clock_reads w))))] else [])
       \<and> waits (snd (wait_for_service_nanoseconds (Suc n) e timeout w)) = Suc (waits w)
       \<and> queries (snd (wait_for_service_nanoseconds (Suc n) e timeout w)) = Suc (Suc (queries w))"
proof -
  let ?start = "clock e (clock_reads w)"
  let ?w = "at_loop_entry e w"
  from assms(3) have "timeout \<noteq> 0" by simp
  with assms(1-4)
  have call: "wait_for_service_nanoseconds (Suc n) e timeout w =
                wait_loop (Suc n) e timeout ?start 0 ?w"
    by (simp add: call_enters_loop)
  have running: "ok e (ok_checks ?w)"
    using assms(6) by (simp add: at_loop_entry_fields)
  have query: "server_available e (queries ?w) = (ret, b)"
    using assms(7) by (simp add: at_loop_entry_fields)
  have entry: "trace ?w = trace w @
      [SteadyClockNow (clock e (clock_reads w)), NodeGraphLock True, GetGraphEvent,
       ServerIsAvailable RCL_RET_OK False, SteadyClockNow (clock e (Suc (clock_reads w)))]"
    using assms(1,2) by (simp add: at_loop_entry_fields after_first_check_fields)
  have checked: "trace (after_check e 0 ?w) = trace w @
      [SteadyClockNow (clock e (clock_reads w)), NodeGraphLock True, GetGraphEvent,
       ServerIsAvailable RCL_RET_OK False, SteadyClockNow (clock e (Suc (clock_reads w))),
       RclcppOk True, WaitForGraphChange 0 (graph_changed e (waits w)),
       CheckAndClear (graph_changed e (waits w)), ServerIsAvailable ret b]"
    using entry running query by (simp add: after_check_fields at_loop_entry_fields)
  from assms(5) have "clock e (Suc (clock_reads w)) \<le> clock e (Suc (Suc (clock_reads w)))"
    by (simp add: monotonic_clock_def)
  with assms(3,4)
  have out_of_time: "\<not> (0 < timeout - (clock e (clock_reads ?w) - ?start) \<or> timeout < 0)"
    by (simp add: at_loop_entry_fields)
  consider (fails) "ret \<noteq> RCL_RET_OK" | (ready) "ret = RCL_RET_OK" "b"
    | (not_ready) "ret = RCL_RET_OK" "\<not> b"
    by blast
  then show ?thesis
  proof cases
    case fails
    with running query
    have "wait_loop (Suc n) e timeout ?start 0 ?w = (Some (Inl (RCLError ret)), after_check e 0 ?w)"
      by (simp add: loop_query_fails)
    with call fails checked show ?thesis
      by (simp add: after_check_fields at_loop_entry_fields)
  next
    case ready
    with running query
    have "wait_loop (Suc n) e timeout ?start 0 ?w = (Some (Inr True), after_check e 0 ?w)"
      by (simp add: loop_ready)
    with call ready checked show ?thesis
      by (simp add: after_check_fields at_loop_entry_fields)
  next
    case not_ready
    with running query out_of_time
    have "wait_loop (Suc n) e timeout ?start 0 ?w = (Some (Inr False), after_pass e 0 ?w)"
      by (simp add: loop_exhausted)
    with call not_ready checked show ?thesis
      by (simp add: after_pass_fields at_loop_entry_fields)
  qed
qed

theorem clamped_budget_gives_one_nonblocking_pass_witness:
  "fst (wait_for_service_nanoseconds 4 (scenario True never_ready no_shutdown) 5
          fresh_world) = Some (Inr False)
   \<and> trace (snd (wait_for_service_nanoseconds 4
                   (scenario True never_ready no_shutdown) 5 fresh_world)) =
       [SteadyClockNow 0, NodeGraphLock True, GetGraphEvent, ServerIsAvailable RCL_RET_OK False,
        SteadyClockNow 10, RclcppOk True, WaitForGraphChange 0 True, CheckAndClear True,
        ServerIsAvailable RCL_RET_OK False, SteadyClockNow 20]
   \<and> waits (snd (wait_for_service_nanoseconds 4
                   (scenario True never_ready no_shutdown) 5 fresh_world)) = 1
   \<and> queries (snd (wait_for_service_nanoseconds 4
                   (scenario True never_ready no_shutdown) 5 fresh_world)) = 2"
proof -
  let ?e = "scenario True never_ready no_shutdown"
  have alive: "node_alive ?e" by (simp add: sample_defs)
  have first: "server_available ?e (queries fresh_world) = (RCL_RET_OK, False)"
    by (simp add: sample_defs)
  have positive: "(0 :: int) < 5" by simp
  have spent: "5 - (clock ?e (Suc (clock_reads fresh_world)) - clock ?e (clock_reads fresh_world)) < 0"
    by (simp add: sample_defs fresh_world_def)
  have mono: "monotonic_clock ?e" by (simp add: monotonic_clock_def sample_defs)
  have running: "ok ?e (ok_checks fresh_world)" by (simp add: sample_defs)
  have second: "server_available ?e (Suc (queries fresh_world)) = (RCL_RET_OK, False)"
    by (simp add: sample_defs)
  from clamped_budget_gives_one_nonblocking_pass
    [OF alive first positive spent mono running second, of 3]
  show ?thesis by (simp add: sample_defs fresh_world_def)
qed

text \<open>
  Claim C4 as stated asks for one wait and one readiness re-check in every such call. With
  the shutdown signal active the pass ends at its first statement: timeout 5, a clock that
  advances by 10 between readings, so that the budget is \<open>5 - 10\<close>, and the call returns
  \<^verbatim>\<open>false\<close> with no wait and only the immediate readiness query.
\<close>

theorem clamped_pass_ends_at_shutdown_check:
  "node_alive (scenario True never_ready shutdown_active)
   \<and> server_available (scenario True never_ready shutdown_active) 0 =
       (RCL_RET_OK, False)
   \<and> (0 :: int) < 5
   \<and> 5 - (clock (scenario True never_ready shutdown_active) 1
          - clock (scenario True never_ready shutdown_active) 0) < 0
   \<and> wait_for_service_nanoseconds 4 (scenario True never_ready shutdown_active) 5
       fresh_world =
       (Some (Inr False),
        \<lparr>clock_reads = 2, queries = 1, ok_checks = 1, waits = 0, event_set = False,
         trace = [SteadyClockNow 0, NodeGraphLock True, GetGraphEvent,
                  ServerIsAvailable 0 False, SteadyClockNow 10, RclcppOk False]\<rparr>)"
proof -
  have "wait_for_service_nanoseconds 4 (scenario True never_ready shutdown_active) 5
       fresh_world =
       (Some (Inr False),
        \<lparr>clock_reads = 2, queries = 1, ok_checks = 1, waits = 0, event_set = False,
         trace = [SteadyClockNow 0, NodeGraphLock True, GetGraphEvent,
                  ServerIsAvailable 0 False, SteadyClockNow 10, RclcppOk False]\<rparr>)"
    by code_simp
  then show ?thesis by (simp add: sample_defs)
qed

end
